theory Spec2Isabelle
  imports Main "HOL-Library.AList" "HOL-Library.Multiset" "HOL-Library.Word"
begin

section \<open>Values, maps and the store\<close>

text \<open>
  The library passes documents and queries around as \<^verbatim>\<open>map[string]interface{}\<close>. A Go map
  is a reference: \<^verbatim>\<open>WithSize\<close>, \<^verbatim>\<open>BulkCreate\<close> and \<^verbatim>\<open>SearchDocuments\<close> write through the
  reference they are given, and the caller sees the change. The model therefore keeps every
  map in a store and passes addresses around. A map variable is an \<open>addr option\<close>, where
  \<open>None\<close> is Go's nil map (reads find nothing, \<^verbatim>\<open>delete\<close> does nothing, an assignment
  panics).

  The contents of a map are an association list. Go leaves the order in which \<^verbatim>\<open>range\<close>
  visits a map unspecified; the order of the list stands for the order of that visit, and
  every theorem below holds for every list, hence for every order. (Where the order of a
  visit shows in an error message, in \<^verbatim>\<open>BulkCreate\<close>, the visit is a parameter of its own.)
\<close>

type_synonym addr = nat

type_synonym mapref = "addr option"

text \<open>A \<^verbatim>\<open>float64\<close> is carried as its 64 bits: the code copies scores, it never computes on them.\<close>

type_synonym float64 = "64 word"

text \<open>
  What an \<^verbatim>\<open>interface{}\<close> holds in this library: nil, a boolean, an \<^verbatim>\<open>int\<close> (no arithmetic
  is done on it, so it is an unbounded integer here), a \<^verbatim>\<open>float64\<close>, a string, a map, a
  \<^verbatim>\<open>[]map[string]interface{}\<close> (the clause lists; a nil slice has length 0 and is the
  empty list), a \<^verbatim>\<open>[]interface{}\<close>, and a channel, as an example of the values a caller may
  store in a document that \<^verbatim>\<open>encoding/json\<close> cannot encode.
\<close>

datatype val =
    VNil
  | VBool bool
  | VInt int
  | VFloat float64
  | VStr string
  | VMap mapref
  | VMaps "mapref list"
  | VSlice "val list"
  | VChan nat

type_synonym gomap = "(string \<times> val) list"

record store =
  nxt :: addr
  cells :: "addr \<Rightarrow> gomap"

text \<open>An error value (\<^verbatim>\<open>fmt.Errorf\<close>, with its message) or a run-time panic.\<close>

datatype failure = Error string | Panic string

text \<open>\<^verbatim>\<open>make(map[string]interface{})\<close> and map literals: a new map at the next free address.\<close>

definition new_map :: "gomap \<Rightarrow> store \<Rightarrow> addr \<times> store" where
  "new_map m h = (nxt h, h\<lparr>cells := (cells h)(nxt h := m), nxt := Suc (nxt h)\<rparr>)"

text \<open>\<^verbatim>\<open>m[k] = v\<close> on a map known to be non-nil.\<close>

definition map_set :: "addr \<Rightarrow> string \<Rightarrow> val \<Rightarrow> store \<Rightarrow> store" where
  "map_set a k v h = h\<lparr>cells := (cells h)(a := AList.update k v (cells h a))\<rparr>"

text \<open>\<^verbatim>\<open>m[k] = v\<close> on a map variable: Go panics when the map is nil.\<close>

definition map_assign :: "mapref \<Rightarrow> string \<Rightarrow> val \<Rightarrow> store \<Rightarrow> failure + store" where
  "map_assign r k v h =
     (case r of
        None \<Rightarrow> Inl (Panic ''assignment to entry in nil map'')
      | Some a \<Rightarrow> Inr (map_set a k v h))"

text \<open>\<^verbatim>\<open>delete(m, k)\<close>: nothing happens on a nil map or a missing key.\<close>

definition map_delete :: "mapref \<Rightarrow> string \<Rightarrow> store \<Rightarrow> store" where
  "map_delete r k h =
     (case r of
        None \<Rightarrow> h
      | Some a \<Rightarrow> h\<lparr>cells := (cells h)(a := AList.delete k (cells h a))\<rparr>)"

text \<open>The entries of a map, in the order \<^verbatim>\<open>range\<close> visits them; a nil map has none.\<close>

definition entries :: "store \<Rightarrow> mapref \<Rightarrow> gomap" where
  "entries h r = (case r of None \<Rightarrow> [] | Some a \<Rightarrow> cells h a)"

text \<open>\<^verbatim>\<open>v, ok := m[k]\<close>: \<open>None\<close> when \<^verbatim>\<open>ok\<close> is false.\<close>

definition map_index :: "store \<Rightarrow> mapref \<Rightarrow> string \<Rightarrow> val option" where
  "map_index h r k = map_of (entries h r) k"

definition has_key :: "store \<Rightarrow> mapref \<Rightarrow> string \<Rightarrow> bool" where
  "has_key h r k = (map_index h r k \<noteq> None)"

definition keys_of :: "store \<Rightarrow> mapref \<Rightarrow> string list" where
  "keys_of h r = map fst (entries h r)"

text \<open>
  Following a path of keys through nested maps, as the tests do with
  \<^verbatim>\<open>result["query"].(map[string]interface{})["bool"]...\<close>: the map reached, or \<open>None\<close>
  when a key is missing or does not hold a map.
\<close>

fun descend :: "store \<Rightarrow> mapref \<Rightarrow> string list \<Rightarrow> mapref option" where
  "descend h r [] = Some r"
| "descend h r (k # ks) =
     (case map_index h r k of
        Some (VMap r') \<Rightarrow> descend h r' ks
      | _ \<Rightarrow> None)"

section \<open>Query builders\<close>

definition MatchAllQuery :: "store \<Rightarrow> mapref \<times> store" where
  "MatchAllQuery h =
     (let (e, h1) = new_map [] h;
          (q, h2) = new_map [(''match_all'', VMap (Some e))] h1;
          (r, h3) = new_map [(''query'', VMap (Some q))] h2
      in (Some r, h3))"

definition MatchQuery :: "string \<Rightarrow> string \<Rightarrow> store \<Rightarrow> mapref \<times> store" where
  "MatchQuery field value h =
     (let (leaf, h1) = new_map [(field, VStr value)] h;
          (q, h2) = new_map [(''match'', VMap (Some leaf))] h1;
          (r, h3) = new_map [(''query'', VMap (Some q))] h2
      in (Some r, h3))"

text \<open>The loop of \<^verbatim>\<open>MatchMapQuery\<close>: one appended clause for each entry visited.\<close>

fun MatchMapQuery_loop :: "gomap \<Rightarrow> mapref list \<Rightarrow> store \<Rightarrow> mapref list \<times> store" where
  "MatchMapQuery_loop [] mustClauses h = (mustClauses, h)"
| "MatchMapQuery_loop ((field, value) # rest) mustClauses h =
     (let (leaf, h1) = new_map [(field, value)] h;
          (clause, h2) = new_map [(''match'', VMap (Some leaf))] h1
      in MatchMapQuery_loop rest (mustClauses @ [Some clause]) h2)"

definition MatchMapQuery :: "mapref \<Rightarrow> store \<Rightarrow> mapref \<times> store" where
  "MatchMapQuery fieldValues h =
     (let (mustClauses, h1) = MatchMapQuery_loop (entries h fieldValues) [] h;
          (b, h2) = new_map [(''must'', VMaps mustClauses)] h1;
          (q, h3) = new_map [(''bool'', VMap (Some b))] h2;
          (r, h4) = new_map [(''query'', VMap (Some q))] h3
      in (Some r, h4))"

definition RangeQuery :: "string \<Rightarrow> val \<Rightarrow> val \<Rightarrow> store \<Rightarrow> mapref \<times> store" where
  "RangeQuery field gte lte h =
     (let (rangeCondition, h1) = new_map [] h;
          h2 = (if gte \<noteq> VNil then map_set rangeCondition ''gte'' gte h1 else h1);
          h3 = (if lte \<noteq> VNil then map_set rangeCondition ''lte'' lte h2 else h2);
          (f, h4) = new_map [(field, VMap (Some rangeCondition))] h3;
          (q, h5) = new_map [(''range'', VMap (Some f))] h4;
          (r, h6) = new_map [(''query'', VMap (Some q))] h5
      in (Some r, h6))"

definition BoolQuery :: "mapref list \<Rightarrow> mapref list \<Rightarrow> mapref list \<Rightarrow> store \<Rightarrow> mapref \<times> store" where
  "BoolQuery must should mustNot h =
     (let (boolQuery, h1) = new_map [] h;
          h2 = (if length must > 0 then map_set boolQuery ''must'' (VMaps must) h1 else h1);
          h3 = (if length should > 0 then map_set boolQuery ''should'' (VMaps should) h2 else h2);
          h4 = (if length mustNot > 0 then map_set boolQuery ''must_not'' (VMaps mustNot) h3 else h3);
          (q, h5) = new_map [(''bool'', VMap (Some boolQuery))] h4;
          (r, h6) = new_map [(''query'', VMap (Some q))] h5
      in (Some r, h6))"

text \<open>The modifiers write into the map they are given and return that same reference.\<close>

definition WithSize :: "mapref \<Rightarrow> int \<Rightarrow> store \<Rightarrow> failure + (mapref \<times> store)" where
  "WithSize query size' h =
     (case map_assign query ''size'' (VInt size') h of
        Inl p \<Rightarrow> Inl p
      | Inr h1 \<Rightarrow> Inr (query, h1))"

definition WithFrom :: "mapref \<Rightarrow> int \<Rightarrow> store \<Rightarrow> failure + (mapref \<times> store)" where
  "WithFrom query from' h =
     (case map_assign query ''from'' (VInt from') h of
        Inl p \<Rightarrow> Inl p
      | Inr h1 \<Rightarrow> Inr (query, h1))"

definition WithSort :: "mapref \<Rightarrow> string \<Rightarrow> string \<Rightarrow> store \<Rightarrow> failure + (mapref \<times> store)" where
  "WithSort query field order h =
     (let (ord, h1) = new_map [(''order'', VStr order)] h;
          (entry, h2) = new_map [(field, VMap (Some ord))] h1
      in case map_assign query ''sort'' (VMaps [Some entry]) h2 of
           Inl p \<Rightarrow> Inl p
         | Inr h3 \<Rightarrow> Inr (query, h3))"

section \<open>The world outside the library\<close>

text \<open>
  The library sits on three packages it does not contain: the OpenSearch client
  (\<^verbatim>\<open>opensearch.NewClient\<close>, \<^verbatim>\<open>req.Do\<close>, \<^verbatim>\<open>res.IsError\<close>, \<^verbatim>\<open>res.Status\<close>) and
  \<^verbatim>\<open>encoding/json\<close> (\<^verbatim>\<open>json.Marshal\<close>, the decoder behind \<^verbatim>\<open>parseResponse\<close>). They are
  parameters of the model, gathered in one record; each returns \<open>Inl\<close> with the message of
  its error or \<open>Inr\<close> with its result. The context argument only travels to \<^verbatim>\<open>req.Do\<close> and is
  part of what that parameter answers.

  The Go runtime is outside the library as well where it chooses: \<open>Range_item i m\<close> is the
  order in which the \<^verbatim>\<open>range\<close> over the item number \<open>i\<close> of a bulk response visits the
  entries \<open>m\<close> of that item. Any rearrangement of the entries is possible.
\<close>

record Config =
  Addresses :: "string list"
  Username :: string
  Password :: string
  InsecureSkipVerify :: bool

record tls_Config =
  tls_InsecureSkipVerify :: bool

record http_Transport =
  TLSClientConfig :: "tls_Config option"

record opensearch_Config =
  os_Addresses :: "string list"
  os_Username :: string
  os_Password :: string
  os_Transport :: "http_Transport option"

record 'c Client =
  client :: 'c

record response =
  StatusCode :: int
  Body :: string

text \<open>The requests of the operations modelled here, with the fields the code sets.\<close>

datatype request =
    IndicesExistsRequest (req_Index: "string list")
  | BulkRequest (req_Body: string) (req_Refresh: string)
  | SearchRequest (req_Index: "string list") (req_Body: string)

record ErrorCause =
  Type :: string
  Reason :: string

record BulkItem =
  Item_Index :: string
  Item_ID :: string
  Item_Version :: int
  Item_Result :: string
  Item_Status :: int
  Item_Error :: ErrorCause

text \<open>
  An item of a bulk response is a \<^verbatim>\<open>map[string]BulkItem\<close>, listed here as the decoder
  filled it. The order in which \<^verbatim>\<open>range\<close> visits it is not that of the listing: Go leaves
  it unspecified, and it may differ from one \<^verbatim>\<open>range\<close> to the next (see \<open>Range_item\<close>
  below).
\<close>

record BulkResponse =
  Took :: int
  Errors :: bool
  Items :: "(string \<times> BulkItem) list list"

record Hit =
  Hit_Index :: string
  Hit_ID :: string
  Hit_Score :: float64
  Hit_Source :: mapref

record SearchTotal =
  Value :: int
  Relation :: string

record SearchHits =
  Total :: SearchTotal
  MaxScore :: float64
  Hits :: "Hit list"

record SearchResponse =
  Search_Took :: int
  Search_Hits :: SearchHits

record 'c lib =
  opensearch_NewClient :: "opensearch_Config \<Rightarrow> string + 'c"
  Do :: "'c \<Rightarrow> request \<Rightarrow> string + response"
  IsError :: "response \<Rightarrow> bool"
  Status :: "response \<Rightarrow> string"
  Marshal :: "store \<Rightarrow> val \<Rightarrow> string + string"
  Decode_BulkResponse :: "string \<Rightarrow> string + BulkResponse"
  Decode_SearchResponse :: "string \<Rightarrow> store \<Rightarrow> string + (SearchResponse \<times> store)"
  Range_item :: "nat \<Rightarrow> (string \<times> BulkItem) list \<Rightarrow> (string \<times> BulkItem) list"

text \<open>What an operation can change: the maps of the store, and the requests issued so far.\<close>

record world =
  mem :: store
  sent :: "request list"

section \<open>Client construction\<close>

text \<open>
  \<^verbatim>\<open>NewClient\<close>: the check of the address list, the configuration of the underlying client
  with \<^verbatim>\<open>cfg.Transport\<close> set only under \<^verbatim>\<open>InsecureSkipVerify\<close>, and the two error returns.
\<close>

definition NewClient :: "'c lib \<Rightarrow> Config \<Rightarrow> failure + 'c Client" where
  "NewClient L config =
     (if length (Addresses config) = 0 then Inl (Error ''at least one address is required'')
      else
        let cfg = \<lparr>os_Addresses = Addresses config, os_Username = Username config,
                   os_Password = Password config, os_Transport = None\<rparr>;
            cfg = (if InsecureSkipVerify config
                   then cfg\<lparr>os_Transport :=
                          Some \<lparr>TLSClientConfig = Some \<lparr>tls_InsecureSkipVerify = True\<rparr>\<rparr>\<rparr>
                   else cfg)
        in case opensearch_NewClient L cfg of
             Inl err \<Rightarrow> Inl (Error (''failed to create OpenSearch client: '' @ err))
           | Inr cl \<Rightarrow> Inr \<lparr>client = cl\<rparr>)"

section \<open>Operations\<close>

text \<open>
  An operation takes the world and returns its result with the new world. A Go result
  \<^verbatim>\<open>(v, err)\<close> is \<open>Inr v\<close> or \<open>Inl\<close> of the failure; a result \<^verbatim>\<open>err\<close> alone is an option,
  \<open>None\<close> for nil. A request counts as sent once \<^verbatim>\<open>req.Do\<close> is called with it.
\<close>

definition parseResponse :: "(string \<Rightarrow> string + 'a) \<Rightarrow> string \<Rightarrow> failure + 'a" where
  "parseResponse decode body =
     (case decode body of
        Inl err \<Rightarrow> Inl (Error (''failed to parse response: '' @ err))
      | Inr v \<Rightarrow> Inr v)"

definition IndexExists :: "'c lib \<Rightarrow> 'c Client \<Rightarrow> string \<Rightarrow> world \<Rightarrow> (failure + bool) \<times> world" where
  "IndexExists L c index w =
     (let req = IndicesExistsRequest [index];
          w1 = w\<lparr>sent := sent w @ [req]\<rparr>
      in case Do L (client c) req of
           Inl err \<Rightarrow> (Inl (Error (''failed to check index existence: '' @ err)), w1)
         | Inr res \<Rightarrow>
             if StatusCode res = 404 then (Inr False, w1)
             else if IsError L res
               then (Inl (Error (''index exists request failed with status: '' @ Status L res)), w1)
             else (Inr True, w1))"

text \<open>The loop over the hits of \<^verbatim>\<open>SearchDocuments\<close>: \<^verbatim>\<open>doc\<close> is the hit's own source map.\<close>

fun SearchDocuments_loop ::
  "Hit list \<Rightarrow> mapref list \<Rightarrow> store \<Rightarrow> (failure + mapref list) \<times> store" where
  "SearchDocuments_loop [] results h = (Inr results, h)"
| "SearchDocuments_loop (hit # hits) results h =
     (let doc = Hit_Source hit
      in case map_assign doc ''_id'' (VStr (Hit_ID hit)) h of
           Inl p \<Rightarrow> (Inl p, h)
         | Inr h1 \<Rightarrow>
             (case map_assign doc ''_score'' (VFloat (Hit_Score hit)) h1 of
                Inl p \<Rightarrow> (Inl p, h1)
              | Inr h2 \<Rightarrow> SearchDocuments_loop hits (results @ [doc]) h2))"

definition SearchDocuments ::
  "'c lib \<Rightarrow> 'c Client \<Rightarrow> string \<Rightarrow> mapref \<Rightarrow> world \<Rightarrow> (failure + mapref list) \<times> world" where
  "SearchDocuments L c index query w =
     (case Marshal L (mem w) (VMap query) of
        Inl err \<Rightarrow> (Inl (Error (''failed to marshal query: '' @ err)), w)
      | Inr body \<Rightarrow>
          (let req = SearchRequest [index] body;
               w1 = w\<lparr>sent := sent w @ [req]\<rparr>
           in case Do L (client c) req of
                Inl err \<Rightarrow> (Inl (Error (''failed to search documents: '' @ err)), w1)
              | Inr res \<Rightarrow>
                  if IsError L res
                  then (Inl (Error (''search request failed with status: '' @ Status L res)), w1)
                  else
                    (case parseResponse (\<lambda>b. Decode_SearchResponse L b (mem w1)) (Body res) of
                       Inl e \<Rightarrow> (Inl e, w1)
                     | Inr (response, h1) \<Rightarrow>
                         (case SearchDocuments_loop (Hits (Search_Hits response)) [] h1 of
                            (Inl p, h2) \<Rightarrow> (Inl p, w1\<lparr>mem := h2\<rparr>)
                          | (Inr results, h2) \<Rightarrow> (Inr results, w1\<lparr>mem := h2\<rparr>)))))"

text \<open>\<^verbatim>\<open>strings.Join\<close>.\<close>

fun Join :: "string list \<Rightarrow> string \<Rightarrow> string" where
  "Join [] sep = []"
| "Join [x] sep = x"
| "Join (x # y # ys) sep = x @ sep @ Join (y # ys) sep"

text \<open>
  The two nested loops that gather the error messages of a bulk response. The outer one
  goes through the slice of items in its order, counting them; the inner one ranges over
  the map that an item is, in the order \<open>visit\<close> gives for it.
\<close>

fun item_errors :: "(string \<times> BulkItem) list \<Rightarrow> string list \<Rightarrow> string list" where
  "item_errors [] errorMessages = errorMessages"
| "item_errors ((k, opn) # rest) errorMessages =
     item_errors rest
       (if Type (Item_Error opn) \<noteq> []
        then errorMessages @ [Type (Item_Error opn) @ '': '' @ Reason (Item_Error opn)]
        else errorMessages)"

fun items_errors ::
  "(nat \<Rightarrow> (string \<times> BulkItem) list \<Rightarrow> (string \<times> BulkItem) list) \<Rightarrow> nat \<Rightarrow>
   (string \<times> BulkItem) list list \<Rightarrow> string list \<Rightarrow> string list" where
  "items_errors visit i [] errorMessages = errorMessages"
| "items_errors visit i (item # items) errorMessages =
     items_errors visit (Suc i) items (item_errors (visit i item) errorMessages)"

text \<open>
  One round of the loop \<^verbatim>\<open>for _, doc := range documents\<close> that writes the bulk body: the
  action map is built, the identifier moves from the document into it (\<^verbatim>\<open>inner\<close> is the
  map \<^verbatim>\<open>action["index"]\<close>), and both are encoded onto the buffer, each followed by a line
  feed. The two maps of the action line stay in the store, out of the caller's reach.
\<close>

definition BulkCreate_entry ::
  "'c lib \<Rightarrow> string \<Rightarrow> mapref \<Rightarrow> string \<Rightarrow> store \<Rightarrow> (failure + string) \<times> store" where
  "BulkCreate_entry L index doc buf h =
     (let (inner, h1) = new_map [(''_index'', VStr index)] h;
          (action, h2) = new_map [(''index'', VMap (Some inner))] h1;
          h3 = (case map_index h2 doc ''_id'' of
                  Some id' \<Rightarrow> map_delete doc ''_id'' (map_set inner ''_id'' id' h2)
                | None \<Rightarrow> h2)
      in case Marshal L h3 (VMap (Some action)) of
           Inl err \<Rightarrow> (Inl (Error (''failed to marshal bulk action: '' @ err)), h3)
         | Inr actionBytes \<Rightarrow>
             (case Marshal L h3 (VMap doc) of
                Inl err \<Rightarrow> (Inl (Error (''failed to marshal document: '' @ err)), h3)
              | Inr docBytes \<Rightarrow>
                  (Inr (buf @ actionBytes @ [CHR 0x0A] @ docBytes @ [CHR 0x0A]), h3)))"

fun BulkCreate_loop ::
  "'c lib \<Rightarrow> string \<Rightarrow> mapref list \<Rightarrow> string \<Rightarrow> store \<Rightarrow> (failure + string) \<times> store" where
  "BulkCreate_loop L index [] buf h = (Inr buf, h)"
| "BulkCreate_loop L index (doc # docs) buf h =
     (case BulkCreate_entry L index doc buf h of
        (Inl e, h1) \<Rightarrow> (Inl e, h1)
      | (Inr buf1, h1) \<Rightarrow> BulkCreate_loop L index docs buf1 h1)"

definition BulkCreate ::
  "'c lib \<Rightarrow> 'c Client \<Rightarrow> string \<Rightarrow> mapref list \<Rightarrow> world \<Rightarrow> failure option \<times> world" where
  "BulkCreate L c index documents w =
     (if length documents = 0 then (None, w)
      else
        case BulkCreate_loop L index documents [] (mem w) of
          (Inl e, h1) \<Rightarrow> (Some e, w\<lparr>mem := h1\<rparr>)
        | (Inr buf, h1) \<Rightarrow>
            (let req = BulkRequest buf ''true'';
                 w1 = w\<lparr>mem := h1, sent := sent w @ [req]\<rparr>
             in case Do L (client c) req of
                  Inl err \<Rightarrow> (Some (Error (''failed to perform bulk operation: '' @ err)), w1)
                | Inr res \<Rightarrow>
                    if IsError L res
                    then (Some (Error (''bulk request failed with status: '' @ Status L res)), w1)
                    else
                      (case parseResponse (Decode_BulkResponse L) (Body res) of
                         Inl e \<Rightarrow> (Some e, w1)
                       | Inr response \<Rightarrow>
                           if Errors response
                           then
                             (let errorMessages = items_errors (Range_item L) 0 (Items response) []
                              in if length errorMessages > 0
                                 then (Some (Error (''bulk operation had errors: ''
                                                     @ Join errorMessages ''; '')), w1)
                                 else (None, w1))
                           else (None, w1))))"

section \<open>Auxiliary definitions\<close>

text \<open>What one round of the loop of \<^verbatim>\<open>MatchMapQuery\<close> does to the store.\<close>

definition clause_step :: "string \<times> val \<Rightarrow> store \<Rightarrow> store" where
  "clause_step e h =
     h\<lparr>cells := (cells h)(nxt h := [e], Suc (nxt h) := [(''match'', VMap (Some (nxt h)))]),
       nxt := Suc (Suc (nxt h))\<rparr>"

text \<open>The message of one item of a bulk response, and which items have one.\<close>

definition error_text :: "BulkItem \<Rightarrow> string" where
  "error_text opn = Type (Item_Error opn) @ '': '' @ Reason (Item_Error opn)"

definition typed_error :: "BulkItem \<Rightarrow> bool" where
  "typed_error opn = (Type (Item_Error opn) \<noteq> [])"

text \<open>A source body with the identifier and the score of its hit written over it.\<close>

definition annotated :: "Hit \<Rightarrow> (string \<rightharpoonup> val) \<Rightarrow> (string \<rightharpoonup> val)" where
  "annotated hit src = src(''_id'' \<mapsto> VStr (Hit_ID hit), ''_score'' \<mapsto> VFloat (Hit_Score hit))"

text \<open>
  A map variable of a caller refers to a map that exists: it is nil or an address below
  the next free one. Every reference a Go program holds is of this kind.
\<close>

definition allocated :: "store \<Rightarrow> mapref \<Rightarrow> bool" where
  "allocated h r = (case r of None \<Rightarrow> True | Some a \<Rightarrow> a < nxt h)"

text \<open>The store after one round of the loop of \<^verbatim>\<open>BulkCreate\<close>, whatever the encoder answers.\<close>

definition move_id :: "string \<Rightarrow> mapref \<Rightarrow> store \<Rightarrow> store" where
  "move_id index doc h =
     (let (inner, h1) = new_map [(''_index'', VStr index)] h;
          (action, h2) = new_map [(''index'', VMap (Some inner))] h1
      in case map_index h2 doc ''_id'' of
           Some id' \<Rightarrow> map_delete doc ''_id'' (map_set inner ''_id'' id' h2)
         | None \<Rightarrow> h2)"

text \<open>
  What the loop of \<^verbatim>\<open>BulkCreate\<close> is to do, said without the loop. \<open>rounds index docs h i\<close>
  is the store after the first \<open>i\<close> documents had their round. In round \<open>i\<close> the encoder
  is called twice on the store after that round: on the action map, which is the second of
  the two maps the round made, and on the document. The round is in order when neither
  call fails; its bytes are then the two encodings, each followed by a line feed; when one
  call fails, the error of the round is that of the first call that failed, under the
  message of its place.
\<close>

definition rounds :: "string \<Rightarrow> mapref list \<Rightarrow> store \<Rightarrow> nat \<Rightarrow> store" where
  "rounds index docs h i = foldl (\<lambda>h' doc. move_id index doc h') h (take i docs)"

definition action_line :: "'c lib \<Rightarrow> string \<Rightarrow> mapref list \<Rightarrow> store \<Rightarrow> nat \<Rightarrow> string + string" where
  "action_line L index docs h i =
     Marshal L (rounds index docs h (Suc i)) (VMap (Some (Suc (nxt (rounds index docs h i)))))"

definition doc_line :: "'c lib \<Rightarrow> string \<Rightarrow> mapref list \<Rightarrow> store \<Rightarrow> nat \<Rightarrow> string + string" where
  "doc_line L index docs h i = Marshal L (rounds index docs h (Suc i)) (VMap (docs ! i))"

definition round_ok :: "'c lib \<Rightarrow> string \<Rightarrow> mapref list \<Rightarrow> store \<Rightarrow> nat \<Rightarrow> bool" where
  "round_ok L index docs h i =
     (\<not> isl (action_line L index docs h i) \<and> \<not> isl (doc_line L index docs h i))"

definition round_bytes :: "'c lib \<Rightarrow> string \<Rightarrow> mapref list \<Rightarrow> store \<Rightarrow> nat \<Rightarrow> string" where
  "round_bytes L index docs h i =
     projr (action_line L index docs h i) @ [CHR 0x0A] @
     projr (doc_line L index docs h i) @ [CHR 0x0A]"

definition round_error :: "'c lib \<Rightarrow> string \<Rightarrow> mapref list \<Rightarrow> store \<Rightarrow> nat \<Rightarrow> failure" where
  "round_error L index docs h i =
     (case action_line L index docs h i of
        Inl err \<Rightarrow> Error (''failed to marshal bulk action: '' @ err)
      | Inr actionBytes \<Rightarrow> Error (''failed to marshal document: '' @ projl (doc_line L index docs h i)))"

text \<open>The body of the bulk request: the bytes of all the rounds, one after the other.\<close>

definition bulk_body :: "'c lib \<Rightarrow> string \<Rightarrow> mapref list \<Rightarrow> store \<Rightarrow> nat \<Rightarrow> string" where
  "bulk_body L index docs h n = concat (map (round_bytes L index docs h) [0..<n])"

text \<open>
  The messages of the item operations that carry an error type, item after item, each item
  in the order its \<^verbatim>\<open>range\<close> visits it.
\<close>

definition visited_errors ::
  "(nat \<Rightarrow> (string \<times> BulkItem) list \<Rightarrow> (string \<times> BulkItem) list) \<Rightarrow>
   (string \<times> BulkItem) list list \<Rightarrow> string list list" where
  "visited_errors visit items =
     map (\<lambda>i. map error_text (filter typed_error (map snd (visit i (items ! i)))))
         [0..<length items]"

section \<open>Stand-ins for the outside world, for the examples\<close>

text \<open>
  The theorems below hold for every value of the \<open>lib\<close> parameters. The examples need one
  value: a small stand-in for each package, which behaves like it on the inputs of the
  examples.
\<close>

definition empty_store :: store where
  "empty_store = \<lparr>nxt = 0, cells = (\<lambda>a. [])\<rparr>"

definition empty_world :: world where
  "empty_world = \<lparr>mem = empty_store, sent = []\<rparr>"

text \<open>A store holding the given maps at the addresses 0, 1, 2, ...\<close>

definition store_of :: "gomap list \<Rightarrow> store" where
  "store_of ms = \<lparr>nxt = length ms, cells = (\<lambda>a. if a < length ms then ms ! a else [])\<rparr>"

function decimal :: "nat \<Rightarrow> string" where
  "decimal n = (if n < 10 then [''0123456789'' ! n]
                else decimal (n div 10) @ [''0123456789'' ! (n mod 10)])"
  by pat_completeness auto
termination
  by (relation "measure id") auto

text \<open>The first error of a list of results, or all the results.\<close>

fun all_right :: "('e + 'a) list \<Rightarrow> 'e + 'a list" where
  "all_right [] = Inr []"
| "all_right (Inl e # rs) = Inl e"
| "all_right (Inr x # rs) = (case all_right rs of Inl e \<Rightarrow> Inl e | Inr xs \<Rightarrow> Inr (x # xs))"

text \<open>
  A stand-in for \<^verbatim>\<open>json.Marshal\<close>: it writes nil, booleans, integers, strings (without
  escaping), maps (in the stored order of their keys) and slices, and like the encoder it
  refuses a channel. It does not format floating-point numbers, and it gives up below a
  fixed depth of nesting.
\<close>

fun encode :: "nat \<Rightarrow> store \<Rightarrow> val \<Rightarrow> string + string" where
  "encode 0 h v = Inl ''json: unsupported value: encountered a cycle''"
| "encode (Suc n) h v =
     (case v of
        VNil \<Rightarrow> Inr ''null''
      | VBool b \<Rightarrow> Inr (if b then ''true'' else ''false'')
      | VInt i \<Rightarrow> Inr ((if i < 0 then ''-'' else []) @ decimal (nat \<bar>i\<bar>))
      | VFloat f \<Rightarrow> Inl ''json: float64 is outside this stand-in''
      | VStr s \<Rightarrow> Inr ([CHR 0x22] @ s @ [CHR 0x22])
      | VMap None \<Rightarrow> Inr ''null''
      | VMap (Some a) \<Rightarrow>
          (case all_right (map (\<lambda>(k, x). case encode n h x of
                                            Inl e \<Rightarrow> Inl e
                                          | Inr s \<Rightarrow> Inr ([CHR 0x22] @ k @ [CHR 0x22] @ '':'' @ s))
                               (cells h a)) of
             Inl e \<Rightarrow> Inl e
           | Inr fs \<Rightarrow> Inr (''{'' @ Join fs '','' @ ''}''))
      | VMaps rs \<Rightarrow>
          (case all_right (map (\<lambda>r. encode n h (VMap r)) rs) of
             Inl e \<Rightarrow> Inl e
           | Inr xs \<Rightarrow> Inr (''['' @ Join xs '','' @ '']''))
      | VSlice vs \<Rightarrow>
          (case all_right (map (encode n h) vs) of
             Inl e \<Rightarrow> Inl e
           | Inr xs \<Rightarrow> Inr (''['' @ Join xs '','' @ '']''))
      | VChan c \<Rightarrow> Inl ''json: unsupported type: chan int'')"

definition sample_Marshal :: "store \<Rightarrow> val \<Rightarrow> string + string" where
  "sample_Marshal h v = encode 8 h v"

text \<open>
  A stand-in for \<^verbatim>\<open>opensearch.NewClient\<close>, which parses every address with \<^verbatim>\<open>url.Parse\<close>
  and fails on the first one that does not parse; \<^verbatim>\<open>url.Parse\<close> rejects an ASCII control
  character. The client it returns is the configuration it was given.
\<close>

definition control_char :: "char \<Rightarrow> bool" where
  "control_char ch = ((of_char ch :: nat) < 32 \<or> (of_char ch :: nat) = 127)"

definition sample_opensearch_NewClient :: "opensearch_Config \<Rightarrow> string + opensearch_Config" where
  "sample_opensearch_NewClient cfg =
     (if list_ex (list_ex control_char) (os_Addresses cfg)
      then Inl ''cannot create client: cannot parse url: net/url: invalid control character in URL''
      else Inr cfg)"

text \<open>Stand-ins for the decoder, which know the response bodies of the examples.\<close>

definition bulk_item :: "string \<Rightarrow> int \<Rightarrow> string \<Rightarrow> string \<Rightarrow> BulkItem" where
  "bulk_item i st ty re =
     \<lparr>Item_Index = ''books'', Item_ID = i, Item_Version = 1, Item_Result = [], Item_Status = st,
      Item_Error = \<lparr>Type = ty, Reason = re\<rparr>\<rparr>"

definition body_no_errors :: string where
  \<open>body_no_errors = ''{"took":3,"errors":false,"items":[]}''\<close>

definition body_untyped_error :: string where
  \<open>body_untyped_error = ''{"took":3,"errors":true,"items":[{"index":{"_index":"books","_id":"1","status":400,"error":{"reason":"rejected"}}}]}''\<close>

definition body_two_errors :: string where
  \<open>body_two_errors = ''{"took":3,"errors":true,"items":[{"index":{"_index":"books","_id":"1","status":400,"error":{"type":"mapper_parsing_exception","reason":"failed to parse"}}},{"index":{"_index":"books","_id":"2","status":201}},{"index":{"_index":"books","_id":"3","status":409,"error":{"type":"version_conflict_engine_exception","reason":"conflict"}}}]}''\<close>

definition sample_decode_bulk :: "string \<Rightarrow> string + BulkResponse" where
  "sample_decode_bulk body =
     (if body = body_no_errors
        then Inr \<lparr>Took = 3, Errors = False, Items = []\<rparr>
      else if body = body_untyped_error
        then Inr \<lparr>Took = 3, Errors = True,
                  Items = [[(''index'', bulk_item ''1'' 400 [] ''rejected'')]]\<rparr>
      else if body = body_two_errors
        then Inr \<lparr>Took = 3, Errors = True,
                  Items = [[(''index'', bulk_item ''1'' 400 ''mapper_parsing_exception'' ''failed to parse'')],
                           [(''index'', bulk_item ''2'' 201 [] [])],
                           [(''index'', bulk_item ''3'' 409 ''version_conflict_engine_exception'' ''conflict'')]]\<rparr>
      else Inl ''unexpected end of JSON input'')"

definition body_two_hits :: string where
  \<open>body_two_hits = ''{"took":2,"hits":{"total":{"value":2,"relation":"eq"},"max_score":1.0,"hits":[{"_index":"books","_id":"a","_score":1.0,"_source":{"title":"Go"}},{"_index":"books","_id":"b","_score":0.5,"_source":{"title":"HOL"}}]}}''\<close>

definition sample_decode_search :: "string \<Rightarrow> store \<Rightarrow> string + (SearchResponse \<times> store)" where
  "sample_decode_search body h =
     (if body = body_two_hits
        then
          (let (s1, h1) = new_map [(''title'', VStr ''Go'')] h;
               (s2, h2) = new_map [(''title'', VStr ''HOL'')] h1
           in Inr (\<lparr>Search_Took = 2,
                     Search_Hits = \<lparr>Total = \<lparr>Value = 2, Relation = ''eq''\<rparr>,
                                    MaxScore = 0x3FF0000000000000,
                                    Hits = [\<lparr>Hit_Index = ''books'', Hit_ID = ''a'',
                                             Hit_Score = 0x3FF0000000000000, Hit_Source = Some s1\<rparr>,
                                            \<lparr>Hit_Index = ''books'', Hit_ID = ''b'',
                                             Hit_Score = 0x3FE0000000000000, Hit_Source = Some s2\<rparr>]\<rparr>\<rparr>,
                   h2))
      else Inl ''unexpected end of JSON input'')"

text \<open>
  A server that gives the same answer to every request, and the library built on it:
  \<^verbatim>\<open>IsError\<close> is a status above 299, as in the client package, and \<^verbatim>\<open>range\<close> visits
  an item of a bulk response from its last listed entry to its first.
\<close>

definition answering :: "string + response \<Rightarrow> request \<Rightarrow> string + response" where
  "answering ans req = ans"

definition sample_lib :: "(request \<Rightarrow> string + response) \<Rightarrow> opensearch_Config lib" where
  "sample_lib server =
     \<lparr>opensearch_NewClient = sample_opensearch_NewClient,
      Do = (\<lambda>cl req. server req),
      IsError = (\<lambda>res. StatusCode res > 299),
      Status = (\<lambda>res. decimal (nat (StatusCode res))),
      Marshal = sample_Marshal,
      Decode_BulkResponse = sample_decode_bulk,
      Decode_SearchResponse = sample_decode_search,
      Range_item = (\<lambda>i m. rev m)\<rparr>"

definition sample_config :: Config where
  "sample_config =
     \<lparr>Addresses = [''http://localhost:9200''], Username = ''admin'', Password = ''admin'',
      InsecureSkipVerify = True\<rparr>"

definition sample_client :: "opensearch_Config Client" where
  "sample_client =
     \<lparr>client = \<lparr>os_Addresses = [''http://localhost:9200''], os_Username = ''admin'',
                 os_Password = ''admin'',
                 os_Transport = Some \<lparr>TLSClientConfig = Some \<lparr>tls_InsecureSkipVerify = True\<rparr>\<rparr>\<rparr>\<rparr>"

text \<open>Two documents of a caller, the first with an identifier of its own.\<close>

definition two_docs :: world where
  "two_docs =
     \<lparr>mem = store_of [[(''_id'', VStr ''1''), (''title'', VStr ''Go'')], [(''title'', VStr ''HOL'')]],
      sent = []\<rparr>"

text \<open>The body the stand-in encoder gives for them under the index \<open>books\<close>.\<close>

definition two_docs_body :: string where
  \<open>two_docs_body =
     ''{"index":{"_index":"books","_id":"1"}}'' @ [CHR 0x0A] @ ''{"title":"Go"}'' @ [CHR 0x0A] @
     ''{"index":{"_index":"books"}}'' @ [CHR 0x0A] @ ''{"title":"HOL"}'' @ [CHR 0x0A]\<close>

text \<open>Two documents with identifiers, the first holding a channel.\<close>

definition chan_docs :: world where
  "chan_docs =
     \<lparr>mem = store_of [[(''_id'', VStr ''1''), (''events'', VChan 0)],
                      [(''_id'', VStr ''2''), (''title'', VStr ''HOL'')]],
      sent = []\<rparr>"

text \<open>A match-all query document, at address 2.\<close>

definition one_query :: world where
  "one_query =
     \<lparr>mem = store_of [[], [(''match_all'', VMap (Some 0))], [(''query'', VMap (Some 1))]],
      sent = []\<rparr>"

definition ok_response :: "string \<Rightarrow> response" where
  "ok_response body = \<lparr>StatusCode = 200, Body = body\<rparr>"

text \<open>A configuration whose one address ends in a line feed, which \<^verbatim>\<open>url.Parse\<close> rejects.\<close>

definition bad_config :: Config where
  "bad_config =
     \<lparr>Addresses = [''http://localhost:9200'' @ [CHR 0x0A]], Username = [], Password = [],
      InsecureSkipVerify = False\<rparr>"

section \<open>Properties of the query builders\<close>

text \<open>
  C4. For every field name and every pair of bounds, where an absent bound is Go's nil,
  \<^verbatim>\<open>RangeQuery\<close> returns a query whose path \<open>query\<close>, \<open>range\<close>, field leads to the range
  condition, and that map holds exactly the bounds that are present: \<open>gte\<close> if and only
  if the lower bound is not nil, \<open>lte\<close> if and only if the upper bound is not nil, each
  with the bound as its value, and no other key. With both bounds its keys are \<open>gte\<close> and
  \<open>lte\<close>, with a lower bound only \<open>gte\<close>, with neither it is empty.
\<close>

theorem RangeQuery_present_bounds:
  "case RangeQuery field gte lte h of (q, h') \<Rightarrow>
     (\<exists>rc. descend h' q [''query'', ''range'', field] = Some rc \<and>
        has_key h' rc ''gte'' = (gte \<noteq> VNil) \<and>
        has_key h' rc ''lte'' = (lte \<noteq> VNil) \<and>
        keys_of h' rc = (if gte \<noteq> VNil then [''gte''] else []) @ (if lte \<noteq> VNil then [''lte''] else []) \<and>
        map_index h' rc ''gte'' = (if gte \<noteq> VNil then Some gte else None) \<and>
        map_index h' rc ''lte'' = (if lte \<noteq> VNil then Some lte else None))"
  by (auto simp: RangeQuery_def new_map_def map_set_def map_index_def entries_def Let_def
                 has_key_def keys_of_def)

text \<open>
  C5. For all three clause lists, \<^verbatim>\<open>BoolQuery\<close> returns a query whose path \<open>query\<close>,
  \<open>bool\<close> leads to the bool map, and that map has the key \<open>must\<close> if and only if the must
  list is non-empty, \<open>should\<close> if and only if the should list is non-empty, \<open>must_not\<close>
  if and only if the must-not list is non-empty, each holding its list, and no other key.
  With three empty lists the bool map has no key at all.
\<close>

theorem BoolQuery_nonempty_lists:
  "case BoolQuery must should mustNot h of (q, h') \<Rightarrow>
     (\<exists>b. descend h' q [''query'', ''bool''] = Some b \<and>
        has_key h' b ''must'' = (must \<noteq> []) \<and>
        has_key h' b ''should'' = (should \<noteq> []) \<and>
        has_key h' b ''must_not'' = (mustNot \<noteq> []) \<and>
        keys_of h' b = (if must \<noteq> [] then [''must''] else [])
                       @ (if should \<noteq> [] then [''should''] else [])
                       @ (if mustNot \<noteq> [] then [''must_not''] else []) \<and>
        map_index h' b ''must'' = (if must \<noteq> [] then Some (VMaps must) else None) \<and>
        map_index h' b ''should'' = (if should \<noteq> [] then Some (VMaps should) else None) \<and>
        map_index h' b ''must_not'' = (if mustNot \<noteq> [] then Some (VMaps mustNot) else None))"
  by (auto simp: BoolQuery_def new_map_def map_set_def map_index_def entries_def Let_def
                 has_key_def keys_of_def)

text \<open>
  C6. \<^verbatim>\<open>WithSize(WithSort(MatchQuery(field, value), sortField, order), n)\<close>, from any store
  and for all arguments (the claim's are \<open>category\<close>, \<open>tutorial\<close>, \<open>views\<close>, \<open>desc\<close>, 10):
  \<^verbatim>\<open>MatchQuery\<close> returns a reference \<open>q\<close>, both modifiers return that same \<open>q\<close>, and in
  the final store the map at \<open>q\<close> has exactly the keys \<open>query\<close>, \<open>sort\<close> and \<open>size\<close>:
  \<open>query\<close> still leads to the match leaf with the one entry field = value, \<open>sort\<close> is a
  list of one map whose single entry is sortField with the given order, and \<open>size\<close> is
  \<open>n\<close>. Each modifier, given any reference to a map, returns that reference and a store
  in which that map has the new key.
\<close>

theorem modifiers_compose:
  "(\<exists>q leaf s ord h1 h2 h3.
     MatchQuery field value h = (Some q, h1) \<and>
     WithSort (Some q) sortField order h1 = Inr (Some q, h2) \<and>
     WithSize (Some q) n h2 = Inr (Some q, h3) \<and>
     keys_of h3 (Some q) = [''query'', ''sort'', ''size''] \<and>
     descend h3 (Some q) [''query'', ''match''] = Some (Some leaf) \<and>
     entries h3 (Some leaf) = [(field, VStr value)] \<and>
     map_index h3 (Some q) ''sort'' = Some (VMaps [Some s]) \<and>
     entries h3 (Some s) = [(sortField, VMap (Some ord))] \<and>
     entries h3 (Some ord) = [(''order'', VStr order)] \<and>
     map_index h3 (Some q) ''size'' = Some (VInt n)) \<and>
   WithSize (Some a) n h = Inr (Some a, map_set a ''size'' (VInt n) h) \<and>
   WithFrom (Some a) n h = Inr (Some a, map_set a ''from'' (VInt n) h) \<and>
   (\<exists>s h'. WithSort (Some a) sortField order h = Inr (Some a, h') \<and>
            map_index h' (Some a) ''sort'' = Some (VMaps [Some s]))"
  by (simp add: MatchQuery_def WithSort_def WithSize_def WithFrom_def new_map_def map_assign_def
        map_set_def map_index_def entries_def keys_of_def update_conv')

theorem modifiers_compose_witness:
  "\<exists>q leaf s ord h1 h2 h3.
     MatchQuery ''category'' ''tutorial'' empty_store = (Some q, h1) \<and>
     WithSort (Some q) ''views'' ''desc'' h1 = Inr (Some q, h2) \<and>
     WithSize (Some q) 10 h2 = Inr (Some q, h3) \<and>
     keys_of h3 (Some q) = [''query'', ''sort'', ''size''] \<and>
     descend h3 (Some q) [''query'', ''match''] = Some (Some leaf) \<and>
     entries h3 (Some leaf) = [(''category'', VStr ''tutorial'')] \<and>
     map_index h3 (Some q) ''sort'' = Some (VMaps [Some s]) \<and>
     entries h3 (Some s) = [(''views'', VMap (Some ord))] \<and>
     entries h3 (Some ord) = [(''order'', VStr ''desc'')] \<and>
     map_index h3 (Some q) ''size'' = Some (VInt 10)"
  using modifiers_compose[of "''category''" "''tutorial''" empty_store "''views''" "''desc''" 10]
  by blast

subsection \<open>The loop of MatchMapQuery\<close>

lemma MatchMapQuery_loop_Cons:
  "MatchMapQuery_loop (e # rest) acc h =
     MatchMapQuery_loop rest (acc @ [Some (Suc (nxt h))]) (clause_step e h)"
  by (cases e) (simp add: new_map_def clause_step_def)

lemma MatchMapQuery_loop_nxt:
  "nxt (snd (MatchMapQuery_loop es acc h)) = nxt h + 2 * length es"
  by (induction es arbitrary: acc h)
     (simp_all add: MatchMapQuery_loop_Cons clause_step_def del: MatchMapQuery_loop.simps(2))

lemma MatchMapQuery_loop_old:
  "a < nxt h \<Longrightarrow> cells (snd (MatchMapQuery_loop es acc h)) a = cells h a"
  by (induction es arbitrary: acc h)
     (simp_all add: MatchMapQuery_loop_Cons clause_step_def del: MatchMapQuery_loop.simps(2))

lemma MatchMapQuery_loop_clauses:
  "fst (MatchMapQuery_loop es acc h) = acc @ map (\<lambda>i. Some (nxt h + 2 * i + 1)) [0..<length es]"
proof (induction es arbitrary: acc h)
  case Nil
  then show ?case by simp
next
  case (Cons e rest)
  have "map (\<lambda>i. Some (nxt h + 2 * i + 1)) [0..<Suc (length rest)]
        = Some (nxt h + 1) # map (\<lambda>i. Some (Suc (Suc (nxt h)) + 2 * i + 1)) [0..<length rest]"
    by (simp add: upt_rec[of 0] map_Suc_upt[symmetric] del: upt_Suc)
  then show ?case
    by (simp add: MatchMapQuery_loop_Cons Cons.IH clause_step_def
             del: MatchMapQuery_loop.simps(2) upt_Suc)
qed

lemma MatchMapQuery_loop_cells:
  "i < length es \<Longrightarrow>
     cells (snd (MatchMapQuery_loop es acc h)) (nxt h + 2 * i) = [es ! i] \<and>
     cells (snd (MatchMapQuery_loop es acc h)) (nxt h + 2 * i + 1)
       = [(''match'', VMap (Some (nxt h + 2 * i)))]"
proof (induction es arbitrary: acc h i)
  case Nil
  then show ?case by simp
next
  case (Cons e rest)
  let ?h2 = "clause_step e h"
  have n2: "nxt ?h2 = Suc (Suc (nxt h))" by (simp add: clause_step_def)
  show ?case
  proof (cases i)
    case 0
    have "nxt h < nxt ?h2" "Suc (nxt h) < nxt ?h2" using n2 by simp_all
    then show ?thesis using 0
      by (simp add: MatchMapQuery_loop_Cons MatchMapQuery_loop_old del: MatchMapQuery_loop.simps(2))
         (simp add: clause_step_def)
  next
    case (Suc j)
    then have "j < length rest" using Cons.prems by simp
    from Cons.IH[OF this, of "acc @ [Some (Suc (nxt h))]" ?h2]
    show ?thesis using Suc n2
      by (simp add: MatchMapQuery_loop_Cons del: MatchMapQuery_loop.simps(2))
  qed
qed

lemma MatchMapQuery_unfold:
  "MatchMapQuery fieldValues h =
     (let r = MatchMapQuery_loop (entries h fieldValues) [] h; h1 = snd r; b = nxt h1
      in (Some (b + 2),
          h1\<lparr>cells := (cells h1)(b := [(''must'', VMaps (fst r))],
                                  Suc b := [(''bool'', VMap (Some b))],
                                  Suc (Suc b) := [(''query'', VMap (Some (Suc b)))]),
             nxt := b + 3\<rparr>))"
  by (simp add: MatchMapQuery_def new_map_def Let_def split: prod.splits)

text \<open>
  C10. For every map of field values, \<^verbatim>\<open>MatchMapQuery\<close> returns a query whose path
  \<open>query\<close>, \<open>bool\<close> leads to a bool map whose only key is \<open>must\<close>, holding a clause list
  with one clause for each entry of the map, in the order the entries were visited: the
  only key of a clause is \<open>match\<close>, and it leads to a map with that one entry. The clause
  list is empty exactly when the map of field values is empty (or nil), and the key
  \<open>must\<close> is there all the same, whereas \<^verbatim>\<open>BoolQuery\<close> with three empty lists returns a
  bool map without any key.
\<close>

theorem MatchMapQuery_always_must:
  "(case MatchMapQuery fieldValues h of (q, h') \<Rightarrow>
     (\<exists>b clauses. descend h' q [''query'', ''bool''] = Some b \<and>
        keys_of h' b = [''must''] \<and>
        map_index h' b ''must'' = Some (VMaps clauses) \<and>
        length clauses = length (entries h fieldValues) \<and>
        map (keys_of h') clauses = map (\<lambda>e. [''match'']) (entries h fieldValues) \<and>
        map (\<lambda>cl. map_option (entries h') (descend h' cl [''match''])) clauses
          = map (\<lambda>e. Some [e]) (entries h fieldValues) \<and>
        (clauses = []) = (entries h fieldValues = []))) \<and>
   (case BoolQuery [] [] [] h of (q, h') \<Rightarrow>
     (\<exists>b. descend h' q [''query'', ''bool''] = Some b \<and> keys_of h' b = []))"
proof -
  let ?es = "entries h fieldValues"
  let ?r = "MatchMapQuery_loop ?es [] h"
  let ?h1 = "snd ?r"
  let ?b = "nxt ?h1"
  let ?cl = "fst ?r"
  let ?h' = "?h1\<lparr>cells := (cells ?h1)(?b := [(''must'', VMaps ?cl)],
                                  Suc ?b := [(''bool'', VMap (Some ?b))],
                                  Suc (Suc ?b) := [(''query'', VMap (Some (Suc ?b)))]),
             nxt := ?b + 3\<rparr>"
  have res: "MatchMapQuery fieldValues h = (Some (?b + 2), ?h')"
    by (simp add: MatchMapQuery_unfold Let_def)
  have b: "?b = nxt h + 2 * length ?es" by (rule MatchMapQuery_loop_nxt)
  have cl: "?cl = map (\<lambda>i. Some (nxt h + 2 * i + 1)) [0..<length ?es]"
    using MatchMapQuery_loop_clauses[of ?es "[]" h] by simp
  have len: "length ?cl = length ?es" using cl by simp
  have cellA: "cells ?h' (nxt h + 2 * i) = [?es ! i]"
    and cellB: "cells ?h' (nxt h + 2 * i + 1) = [(''match'', VMap (Some (nxt h + 2 * i)))]"
    if "i < length ?es" for i
    using MatchMapQuery_loop_cells[OF that, of "[]" h] that b by simp_all
  have keys: "map (keys_of ?h') ?cl = map (\<lambda>e. [''match'']) ?es"
  proof (rule nth_equalityI)
    show "length (map (keys_of ?h') ?cl) = length (map (\<lambda>e. [''match'']) ?es)" using len by simp
  next
    fix i assume "i < length (map (keys_of ?h') ?cl)"
    then have i: "i < length ?es" using len by simp
    then have "?cl ! i = Some (nxt h + 2 * i + 1)" using cl by simp
    then show "map (keys_of ?h') ?cl ! i = map (\<lambda>e. [''match'']) ?es ! i"
      using i len cellB[OF i] by (simp add: keys_of_def entries_def)
  qed
  have leaves: "map (\<lambda>cl. map_option (entries ?h') (descend ?h' cl [''match''])) ?cl
          = map (\<lambda>e. Some [e]) ?es"
  proof (rule nth_equalityI)
    show "length (map (\<lambda>cl. map_option (entries ?h') (descend ?h' cl [''match''])) ?cl)
            = length (map (\<lambda>e. Some [e]) ?es)" using len by simp
  next
    fix i assume "i < length (map (\<lambda>cl. map_option (entries ?h') (descend ?h' cl [''match''])) ?cl)"
    then have i: "i < length ?es" using len by simp
    then have "?cl ! i = Some (nxt h + 2 * i + 1)" using cl by simp
    then show "map (\<lambda>cl. map_option (entries ?h') (descend ?h' cl [''match''])) ?cl ! i
                 = map (\<lambda>e. Some [e]) ?es ! i"
      using i len cellA[OF i] cellB[OF i] by (simp add: map_index_def entries_def)
  qed
  have first: "\<exists>b clauses. descend ?h' (Some (?b + 2)) [''query'', ''bool''] = Some b \<and>
        keys_of ?h' b = [''must''] \<and>
        map_index ?h' b ''must'' = Some (VMaps clauses) \<and>
        length clauses = length ?es \<and>
        map (keys_of ?h') clauses = map (\<lambda>e. [''match'']) ?es \<and>
        map (\<lambda>cl. map_option (entries ?h') (descend ?h' cl [''match''])) clauses
          = map (\<lambda>e. Some [e]) ?es \<and>
        (clauses = []) = (?es = [])"
  proof (intro exI[of _ "Some ?b"] exI[of _ ?cl] conjI)
    show "descend ?h' (Some (?b + 2)) [''query'', ''bool''] = Some (Some ?b)"
      by (simp add: map_index_def entries_def)
    show "keys_of ?h' (Some ?b) = [''must'']" by (simp add: keys_of_def entries_def)
    show "map_index ?h' (Some ?b) ''must'' = Some (VMaps ?cl)"
      by (simp add: map_index_def entries_def)
    show "length ?cl = length ?es" by (rule len)
    show "map (keys_of ?h') ?cl = map (\<lambda>e. [''match'']) ?es" by (rule keys)
    show "map (\<lambda>cl. map_option (entries ?h') (descend ?h' cl [''match''])) ?cl
          = map (\<lambda>e. Some [e]) ?es" by (rule leaves)
    show "(?cl = []) = (?es = [])" using len by (metis length_0_conv)
  qed
  have second: "case BoolQuery [] [] [] h of (q, h') \<Rightarrow>
     (\<exists>b. descend h' q [''query'', ''bool''] = Some b \<and> keys_of h' b = [])"
    by (simp add: BoolQuery_def new_map_def map_index_def entries_def keys_of_def)
  show ?thesis using first second unfolding res by simp
qed


section \<open>Properties of the operations\<close>

text \<open>
  C2 (amended). \<^verbatim>\<open>NewClient\<close> fails with the error \<open>at least one address is required\<close> if
  and only if the address list is empty. For a non-empty list it hands the addresses, the
  credentials and, only when \<^verbatim>\<open>InsecureSkipVerify\<close> is set, a transport that skips
  certificate verification to the underlying constructor; it returns a handle wrapping the
  underlying client when that constructor succeeds, and the constructor's error, wrapped as
  \<open>failed to create OpenSearch client\<close>, when it fails.
\<close>

theorem NewClient_address_required:
  "(NewClient L config = Inl (Error ''at least one address is required'')) = (Addresses config = []) \<and>
   (Addresses config \<noteq> [] \<longrightarrow>
      NewClient L config =
        (case opensearch_NewClient L
                \<lparr>os_Addresses = Addresses config, os_Username = Username config,
                 os_Password = Password config,
                 os_Transport =
                   (if InsecureSkipVerify config
                    then Some \<lparr>TLSClientConfig = Some \<lparr>tls_InsecureSkipVerify = True\<rparr>\<rparr>
                    else None)\<rparr> of
           Inl err \<Rightarrow> Inl (Error (''failed to create OpenSearch client: '' @ err))
         | Inr cl \<Rightarrow> Inr \<lparr>client = cl\<rparr>))"
  by (cases "InsecureSkipVerify config") (simp_all add: NewClient_def split: sum.splits)

theorem NewClient_address_required_witness:
  "Addresses sample_config \<noteq> [] \<and>
   NewClient (sample_lib (answering (Inl ''connection refused''))) sample_config = Inr sample_client"
  using NewClient_address_required
          [of "sample_lib (answering (Inl ''connection refused''))" sample_config]
  by (simp add: sample_config_def sample_client_def sample_lib_def NewClient_def
        sample_opensearch_NewClient_def control_char_def)

text \<open>
  C2 as stated fails: the address list of \<open>bad_config\<close> is not empty, the underlying
  constructor rejects its address, and \<^verbatim>\<open>NewClient\<close> returns that error and no handle.
\<close>

theorem NewClient_nonempty_counterexample:
  "Addresses bad_config \<noteq> [] \<and>
   NewClient (sample_lib (answering (Inl ''connection refused''))) bad_config
     = Inl (Error (''failed to create OpenSearch client: ''
           @ ''cannot create client: cannot parse url: net/url: invalid control character in URL''))"
  by (simp add: bad_config_def sample_lib_def NewClient_def
        sample_opensearch_NewClient_def control_char_def)

text \<open>
  C7. For every index name: when the existence request is answered with status 404,
  \<^verbatim>\<open>IndexExists\<close> returns false and no error; and it returns an error exactly when the
  transport fails or the response has a status other than 404 that \<^verbatim>\<open>IsError\<close> reports
  as a failure.
\<close>

theorem IndexExists_not_found_is_false:
  "(Do L (client c) (IndicesExistsRequest [index]) = Inr res \<and> StatusCode res = 404
      \<longrightarrow> fst (IndexExists L c index w) = Inr False) \<and>
   (\<exists>e. fst (IndexExists L c index w) = Inl e)
     = ((\<exists>err. Do L (client c) (IndicesExistsRequest [index]) = Inl err) \<or>
        (\<exists>r. Do L (client c) (IndicesExistsRequest [index]) = Inr r \<and>
              StatusCode r \<noteq> 404 \<and> IsError L r))"
  by (auto simp: IndexExists_def Let_def split: sum.splits)

theorem IndexExists_not_found_is_false_witness:
  "Do (sample_lib (answering (Inr \<lparr>StatusCode = 404, Body = []\<rparr>))) (client sample_client)
      (IndicesExistsRequest [''books'']) = Inr \<lparr>StatusCode = 404, Body = []\<rparr> \<and>
   StatusCode \<lparr>StatusCode = 404, Body = []\<rparr> = 404 \<and>
   fst (IndexExists (sample_lib (answering (Inr \<lparr>StatusCode = 404, Body = []\<rparr>))) sample_client
          ''books'' empty_world) = Inr False"
  using IndexExists_not_found_is_false
          [of "sample_lib (answering (Inr \<lparr>StatusCode = 404, Body = []\<rparr>))" sample_client
              "''books''" "\<lparr>StatusCode = 404, Body = []\<rparr>" empty_world]
  by (simp add: sample_lib_def answering_def)

text \<open>
  C3. For every index name, client and world, \<^verbatim>\<open>BulkCreate\<close> on the empty document list
  returns no error and leaves the world as it was: no request is added to those sent and
  no map of the store changes.
\<close>

theorem BulkCreate_empty_noop:
  "BulkCreate L c index [] w = (None, w)"
  by (simp add: BulkCreate_def)

subsection \<open>The rounds of the bulk loop\<close>

lemma BulkCreate_entry_snd:
  "snd (BulkCreate_entry L index doc buf h) = move_id index doc h"
  by (simp add: BulkCreate_entry_def move_id_def new_map_def Let_def split: sum.splits option.splits)

lemma BulkCreate_entry_fst:
  "fst (BulkCreate_entry L index doc buf h) =
     (case Marshal L (move_id index doc h) (VMap (Some (Suc (nxt h)))) of
        Inl err \<Rightarrow> Inl (Error (''failed to marshal bulk action: '' @ err))
      | Inr actionBytes \<Rightarrow>
          (case Marshal L (move_id index doc h) (VMap doc) of
             Inl err \<Rightarrow> Inl (Error (''failed to marshal document: '' @ err))
           | Inr docBytes \<Rightarrow> Inr (buf @ actionBytes @ [CHR 0x0A] @ docBytes @ [CHR 0x0A])))"
  by (simp add: BulkCreate_entry_def move_id_def new_map_def Let_def split: sum.splits option.splits)

lemma delete_absent: "map_of m k = None \<Longrightarrow> AList.delete k m = m"
  by (simp add: map_of_eq_None_iff)

lemma move_id_nxt: "nxt (move_id index doc h) = Suc (Suc (nxt h))"
  by (simp add: move_id_def new_map_def map_set_def map_delete_def split: option.splits)

lemma move_id_old:
  assumes "allocated h doc" "a < nxt h"
  shows "cells (move_id index doc h) a = (if doc = Some a then AList.delete ''_id'' (cells h a) else cells h a)"
proof (cases doc)
  case None
  then show ?thesis using assms(2)
    by (simp add: move_id_def new_map_def map_index_def entries_def)
next
  case (Some d)
  then have d: "d < nxt h" using assms(1) by (simp add: allocated_def)
  show ?thesis
  proof (cases "map_of (cells h d) ''_id''")
    case None
    then show ?thesis using Some d assms(2)
      by (auto simp: move_id_def new_map_def map_index_def entries_def delete_absent)
  next
    case (Some v)
    then show ?thesis using \<open>doc = Some d\<close> d assms(2)
      by (auto simp: move_id_def new_map_def map_index_def entries_def map_set_def
            map_delete_def)
  qed
qed

lemma move_id_beyond:
  assumes "allocated h doc" "Suc (nxt h) < a"
  shows "cells (move_id index doc h) a = cells h a"
proof -
  have "doc \<noteq> Some a" using assms by (auto simp: allocated_def)
  then show ?thesis using assms(2)
    by (cases doc; cases "map_index (snd (new_map [(''index'', VMap (Some (nxt h)))]
                  (snd (new_map [(''_index'', VStr index)] h)))) doc ''_id''")
       (simp_all add: move_id_def new_map_def map_set_def map_delete_def)
qed

lemma move_id_action:
  assumes "allocated h doc"
  shows "cells (move_id index doc h) (Suc (nxt h)) = [(''index'', VMap (Some (nxt h)))]"
    and "cells (move_id index doc h) (nxt h) =
           (''_index'', VStr index) #
           (case map_index h doc ''_id'' of Some v \<Rightarrow> [(''_id'', v)] | None \<Rightarrow> [])"
proof -
  have neq: "doc \<noteq> Some (nxt h)" "doc \<noteq> Some (Suc (nxt h))"
    using assms by (auto simp: allocated_def)
  have idx: "map_index (snd (new_map [(''index'', VMap (Some (nxt h)))]
                  (snd (new_map [(''_index'', VStr index)] h)))) doc ''_id'' = map_index h doc ''_id''"
    using neq by (cases doc) (simp_all add: map_index_def entries_def new_map_def)
  show "cells (move_id index doc h) (Suc (nxt h)) = [(''index'', VMap (Some (nxt h)))]"
    using neq idx
    by (cases doc; cases "map_index h doc ''_id''")
       (simp_all add: move_id_def new_map_def map_set_def map_delete_def)
  show "cells (move_id index doc h) (nxt h) =
           (''_index'', VStr index) #
           (case map_index h doc ''_id'' of Some v \<Rightarrow> [(''_id'', v)] | None \<Rightarrow> [])"
    using neq idx
    by (cases doc; cases "map_index h doc ''_id''")
       (simp_all add: move_id_def new_map_def map_set_def map_delete_def)
qed

lemma move_id_no_id:
  assumes "allocated h doc"
  shows "\<not> has_key (move_id index doc h) doc ''_id''"
proof (cases doc)
  case None
  then show ?thesis by (simp add: has_key_def map_index_def entries_def)
next
  case (Some d)
  then have d: "d < nxt h" using assms by (simp add: allocated_def)
  have "cells (move_id index doc h) d = AList.delete ''_id'' (cells h d)"
    using move_id_old[OF assms d] Some by simp
  then show ?thesis using Some
    by (simp add: has_key_def map_index_def entries_def delete_conv')
qed

lemma allocated_mono: "allocated h r \<Longrightarrow> nxt h \<le> nxt h' \<Longrightarrow> allocated h' r"
  by (cases r) (simp_all add: allocated_def)

lemma BulkCreate_loop_Cons:
  "BulkCreate_loop L index (doc # docs) buf h =
     (case fst (BulkCreate_entry L index doc buf h) of
        Inl e \<Rightarrow> (Inl e, move_id index doc h)
      | Inr buf1 \<Rightarrow> BulkCreate_loop L index docs buf1 (move_id index doc h))"
  using BulkCreate_entry_snd[of L index doc buf h]
  by (cases "BulkCreate_entry L index doc buf h") (auto split: sum.splits)

lemma BulkCreate_loop_frame:
  "list_all (allocated h) docs \<Longrightarrow> a < nxt h \<Longrightarrow>
     nxt h \<le> nxt (snd (BulkCreate_loop L index docs buf h)) \<and>
     (cells (snd (BulkCreate_loop L index docs buf h)) a = cells h a \<or>
      cells (snd (BulkCreate_loop L index docs buf h)) a = AList.delete ''_id'' (cells h a))"
proof (induction docs arbitrary: buf h)
  case Nil
  then show ?case by simp
next
  case (Cons doc docs)
  let ?h1 = "move_id index doc h"
  have doc: "allocated h doc" and rest: "list_all (allocated h) docs" using Cons.prems(1) by simp_all
  have n1: "nxt h \<le> nxt ?h1" by (simp add: move_id_nxt)
  have rest1: "list_all (allocated ?h1) docs"
    using rest n1 by (auto simp: list_all_iff intro: allocated_mono)
  have a1: "a < nxt ?h1" using Cons.prems(2) n1 by simp
  have step: "cells ?h1 a = (if doc = Some a then AList.delete ''_id'' (cells h a) else cells h a)"
    by (rule move_id_old[OF doc Cons.prems(2)])
  show ?case
  proof (cases "fst (BulkCreate_entry L index doc buf h)")
    case (Inl e)
    then show ?thesis using n1 step by (simp add: BulkCreate_loop_Cons del: BulkCreate_loop.simps(2))
  next
    case (Inr buf1)
    from Cons.IH[OF rest1 a1, of buf1] n1 step Inr show ?thesis
      by (cases "doc = Some a")
         (auto simp: BulkCreate_loop_Cons delete_idem
               simp del: BulkCreate_loop.simps(2))
  qed
qed

lemma BulkCreate_mem:
  "mem (snd (BulkCreate L c index documents w)) = snd (BulkCreate_loop L index documents [] (mem w))"
proof (cases "documents = []")
  case True
  then show ?thesis by (simp add: BulkCreate_def)
next
  case False
  then show ?thesis
    by (cases "BulkCreate_loop L index documents [] (mem w)")
       (auto simp: BulkCreate_def Let_def split: sum.splits)
qed

lemma rounds_0: "rounds index docs h 0 = h"
  by (simp add: rounds_def)

lemma rounds_Suc:
  "i < length docs \<Longrightarrow>
     rounds index docs h (Suc i) = move_id index (docs ! i) (rounds index docs h i)"
  by (simp add: rounds_def take_Suc_conv_app_nth)

lemma rounds_nxt: "i \<le> length docs \<Longrightarrow> nxt (rounds index docs h i) = nxt h + 2 * i"
  by (induction i) (simp_all add: rounds_0 rounds_Suc move_id_nxt)

lemma rounds_allocated:
  assumes "list_all (allocated h) docs" "i < length docs" "j \<le> length docs"
  shows "allocated (rounds index docs h j) (docs ! i)"
proof -
  have "allocated h (docs ! i)" using assms(1,2) by (simp add: list_all_length)
  moreover have "nxt h \<le> nxt (rounds index docs h j)" using assms(3) by (simp add: rounds_nxt)
  ultimately show ?thesis by (rule allocated_mono)
qed

lemma rounds_old:
  assumes "list_all (allocated h) docs" "a < nxt h"
  shows "i \<le> length docs \<Longrightarrow>
     cells (rounds index docs h i) a =
       (if Some a \<in> set (take i docs) then AList.delete ''_id'' (cells h a) else cells h a)"
proof (induction i)
  case 0
  then show ?case by (simp add: rounds_0)
next
  case (Suc i)
  then have i: "i < length docs" by simp
  have al: "allocated (rounds index docs h i) (docs ! i)"
    using rounds_allocated[OF assms(1) i] i by simp
  have a: "a < nxt (rounds index docs h i)" using assms(2) i by (simp add: rounds_nxt)
  have set: "set (take (Suc i) docs) = insert (docs ! i) (set (take i docs))"
    using i by (simp add: take_Suc_conv_app_nth)
  show ?case
    using Suc.IH i move_id_old[OF al a, of index]
    by (cases "docs ! i = Some a") (simp_all add: rounds_Suc set delete_idem)
qed

lemma round_ok_lines:
  "round_ok L index docs h i \<Longrightarrow>
     action_line L index docs h i = Inr (projr (action_line L index docs h i)) \<and>
     doc_line L index docs h i = Inr (projr (doc_line L index docs h i))"
  by (cases "action_line L index docs h i"; cases "doc_line L index docs h i")
     (simp_all add: round_ok_def)

lemma BulkCreate_entry_round:
  assumes "k < length docs"
  shows "BulkCreate_entry L index (docs ! k) buf (rounds index docs h k) =
           (if round_ok L index docs h k then Inr (buf @ round_bytes L index docs h k)
            else Inl (round_error L index docs h k),
            rounds index docs h (Suc k))"
proof -
  have s: "snd (BulkCreate_entry L index (docs ! k) buf (rounds index docs h k))
             = rounds index docs h (Suc k)"
    using assms by (simp add: BulkCreate_entry_snd rounds_Suc)
  have f: "fst (BulkCreate_entry L index (docs ! k) buf (rounds index docs h k))
             = (if round_ok L index docs h k then Inr (buf @ round_bytes L index docs h k)
                else Inl (round_error L index docs h k))"
    using assms
    by (cases "action_line L index docs h k"; cases "doc_line L index docs h k")
       (simp_all add: BulkCreate_entry_fst rounds_Suc[symmetric] action_line_def[symmetric]
          doc_line_def[symmetric] round_ok_def round_bytes_def round_error_def)
  show ?thesis using s f by (simp add: prod_eq_iff)
qed

lemma BulkCreate_loop_rounds:
  "k \<le> length docs \<Longrightarrow> list_all (round_ok L index docs h) [0..<k] \<Longrightarrow>
     BulkCreate_loop L index docs buf h =
       BulkCreate_loop L index (drop k docs) (buf @ bulk_body L index docs h k)
         (rounds index docs h k)"
proof (induction k)
  case 0
  then show ?case by (simp add: bulk_body_def rounds_0)
next
  case (Suc k)
  then have k: "k < length docs" and before: "list_all (round_ok L index docs h) [0..<k]"
    and ok: "round_ok L index docs h k" by simp_all
  have dr: "drop k docs = docs ! k # drop (Suc k) docs"
    using k by (simp add: Cons_nth_drop_Suc)
  have "BulkCreate_loop L index docs buf h =
          BulkCreate_loop L index (docs ! k # drop (Suc k) docs) (buf @ bulk_body L index docs h k)
            (rounds index docs h k)"
    using Suc.IH before k dr by simp
  also have "\<dots> = BulkCreate_loop L index (drop (Suc k) docs)
                     ((buf @ bulk_body L index docs h k) @ round_bytes L index docs h k)
                     (rounds index docs h (Suc k))"
    using ok by (simp add: BulkCreate_entry_round[OF k])
  finally show ?case by (simp add: bulk_body_def)
qed

lemma BulkCreate_loop_complete:
  assumes "list_all (round_ok L index docs h) [0..<length docs]"
  shows "BulkCreate_loop L index docs buf h =
           (Inr (buf @ bulk_body L index docs h (length docs)), rounds index docs h (length docs))"
  using BulkCreate_loop_rounds[OF le_refl assms, of buf] by simp

lemma BulkCreate_loop_stops:
  assumes "k < length docs" "list_all (round_ok L index docs h) [0..<k]"
    "\<not> round_ok L index docs h k"
  shows "BulkCreate_loop L index docs buf h =
           (Inl (round_error L index docs h k), rounds index docs h (Suc k))"
proof -
  have dr: "drop k docs = docs ! k # drop (Suc k) docs"
    using assms(1) by (simp add: Cons_nth_drop_Suc)
  have "BulkCreate_loop L index docs buf h =
          BulkCreate_loop L index (docs ! k # drop (Suc k) docs) (buf @ bulk_body L index docs h k)
            (rounds index docs h k)"
    using BulkCreate_loop_rounds[of k docs L index h buf] assms(1,2) dr by simp
  also have "\<dots> = (Inl (round_error L index docs h k), rounds index docs h (Suc k))"
    using assms(3) by (simp add: BulkCreate_entry_round[OF assms(1)])
  finally show ?thesis .
qed

lemma BulkCreate_complete:
  assumes "documents \<noteq> []"
    "list_all (round_ok L index documents (mem w)) [0..<length documents]"
  shows "sent (snd (BulkCreate L c index documents w)) =
           sent w @ [BulkRequest (bulk_body L index documents (mem w) (length documents)) ''true'']"
    and "mem (snd (BulkCreate L c index documents w)) =
           rounds index documents (mem w) (length documents)"
  using assms(1) BulkCreate_loop_complete[OF assms(2), of "[]"]
  by (auto simp: BulkCreate_def Let_def split: sum.splits)

lemma BulkCreate_stops:
  assumes "k < length documents" "list_all (round_ok L index documents (mem w)) [0..<k]"
    "\<not> round_ok L index documents (mem w) k"
  shows "BulkCreate L c index documents w =
           (Some (round_error L index documents (mem w) k),
            w\<lparr>mem := rounds index documents (mem w) (Suc k)\<rparr>)"
proof -
  have "documents \<noteq> []" using assms(1) by auto
  then show ?thesis
    using BulkCreate_loop_stops[OF assms, of "[]"] by (simp add: BulkCreate_def)
qed

subsection \<open>Error messages of a bulk response\<close>

lemma item_errors_eq:
  "item_errors item acc = acc @ map error_text (filter typed_error (map snd item))"
  by (induction item acc rule: item_errors.induct) (simp_all add: error_text_def typed_error_def)

lemma items_errors_eq:
  "items_errors visit i items acc =
     acc @ concat (map (\<lambda>j. map error_text (filter typed_error (map snd (visit (i + j) (items ! j)))))
                       [0..<length items])"
proof (induction items arbitrary: i acc)
  case Nil
  then show ?case by simp
next
  case (Cons x xs)
  have "map (\<lambda>j. map error_text (filter typed_error (map snd (visit (i + j) ((x # xs) ! j)))))
            [0..<Suc (length xs)]
        = map error_text (filter typed_error (map snd (visit i x))) #
          map (\<lambda>j. map error_text (filter typed_error (map snd (visit (Suc i + j) (xs ! j)))))
              [0..<length xs]"
    by (simp add: upt_rec[of 0] map_Suc_upt[symmetric] del: upt_Suc)
  then show ?case
    by (simp add: Cons.IH item_errors_eq del: upt_Suc)
qed

lemma items_errors_visited:
  "items_errors visit 0 items [] = concat (visited_errors visit items)"
  by (simp add: items_errors_eq visited_errors_def)

lemma visited_errors_mset:
  assumes "\<forall>i m. mset (visit i m) = mset m" "i < length items"
  shows "mset (visited_errors visit items ! i)
           = mset (map error_text (filter typed_error (map snd (items ! i))))"
  using assms by (simp add: visited_errors_def)

lemma visited_errors_none:
  assumes "\<forall>i m. mset (visit i m) = mset m"
  shows "(concat (visited_errors visit items) = [])
           = (filter typed_error (map snd (concat items)) = [])"
proof -
  have part: "(visited_errors visit items ! i = [])
                = (filter typed_error (map snd (items ! i)) = [])" if "i < length items" for i
  proof -
    have "(visited_errors visit items ! i = []) = (mset (visited_errors visit items ! i) = {#})"
      by simp
    also have "\<dots> = (mset (map error_text (filter typed_error (map snd (items ! i)))) = {#})"
      using visited_errors_mset[OF assms that] by simp
    also have "\<dots> = (filter typed_error (map snd (items ! i)) = [])"
      by (auto simp: filter_empty_conv)
    finally show ?thesis .
  qed
  have len: "length (visited_errors visit items) = length items"
    by (simp add: visited_errors_def)
  have "(concat (visited_errors visit items) = [])
          = (\<forall>i<length items. visited_errors visit items ! i = [])"
    using len by (simp add: all_set_conv_all_nth)
  also have "\<dots> = (\<forall>i<length items. filter typed_error (map snd (items ! i)) = [])"
    using part by auto
  also have "\<dots> = (\<forall>item\<in>set items. filter typed_error (map snd item) = [])"
    by (simp add: all_set_conv_all_nth)
  also have "\<dots> = (filter typed_error (map snd (concat items)) = [])"
    by (induction items) simp_all
  finally show ?thesis .
qed


text \<open>
  C1 (amended). For a non-empty document list all of whose rounds are in order, so that
  the bulk body is written, whose request is answered with a status that is not an error
  and whose response is decoded with the errors flag set, and for every order in which
  \<^verbatim>\<open>range\<close> may visit the operations of an item (every rearrangement of them):
  \<^verbatim>\<open>BulkCreate\<close> fails if and only if some item operation of the response has a non-empty
  error type. The error then reads \<open>bulk operation had errors:\<close> followed by the messages
  joined by \<open>; \<close>. The items contribute in the order of the response; an item contributes
  the \<open>type: reason\<close> of exactly its operations with an error type, in the order its
  \<^verbatim>\<open>range\<close> visits them, which Go does not fix. When the flag is set and no operation has an
  error type, the call returns no error.
\<close>

theorem BulkCreate_item_errors:
  assumes "documents \<noteq> []"
    and "list_all (round_ok L index documents (mem w)) [0..<length documents]"
    and "Do L (client c)
           (BulkRequest (bulk_body L index documents (mem w) (length documents)) ''true'') = Inr res"
    and "\<not> IsError L res"
    and "Decode_BulkResponse L (Body res) = Inr response"
    and "Errors response"
    and "\<forall>i m. mset (Range_item L i m) = mset m"
  shows "fst (BulkCreate L c index documents w) =
           (if filter typed_error (map snd (concat (Items response))) = [] then None
            else Some (Error (''bulk operation had errors: ''
                   @ Join (concat (visited_errors (Range_item L) (Items response))) ''; ''))) \<and>
         length (visited_errors (Range_item L) (Items response)) = length (Items response) \<and>
         (\<forall>i<length (Items response).
            visited_errors (Range_item L) (Items response) ! i =
              map error_text (filter typed_error (map snd (Range_item L i (Items response ! i)))) \<and>
            mset (visited_errors (Range_item L) (Items response) ! i) =
              mset (map error_text (filter typed_error (map snd (Items response ! i)))))"
proof -
  have loop: "BulkCreate_loop L index documents [] (mem w) =
                (Inr (bulk_body L index documents (mem w) (length documents)),
                 rounds index documents (mem w) (length documents))"
    using BulkCreate_loop_complete[OF assms(2), of "[]"] by simp
  have none: "(concat (visited_errors (Range_item L) (Items response)) = [])
                = (filter typed_error (map snd (concat (Items response))) = [])"
    by (rule visited_errors_none[OF assms(7)])
  have result: "fst (BulkCreate L c index documents w) =
           (if filter typed_error (map snd (concat (Items response))) = [] then None
            else Some (Error (''bulk operation had errors: ''
                   @ Join (concat (visited_errors (Range_item L) (Items response))) ''; '')))"
    using assms(1,3,4,5,6) loop none
    by (simp add: BulkCreate_def parseResponse_def items_errors_visited Let_def)
  have parts: "visited_errors (Range_item L) (Items response) ! i =
              map error_text (filter typed_error (map snd (Range_item L i (Items response ! i)))) \<and>
            mset (visited_errors (Range_item L) (Items response) ! i) =
              mset (map error_text (filter typed_error (map snd (Items response ! i))))"
    if "i < length (Items response)" for i
    using visited_errors_mset[OF assms(7) that] that by (simp add: visited_errors_def)
  show ?thesis using result parts by (simp add: visited_errors_def)
qed

theorem BulkCreate_item_errors_witness:
  "fst (BulkCreate (sample_lib (answering (Inr (ok_response body_two_errors)))) sample_client
          ''books'' [Some 0, Some 1] two_docs)
     = Some (Error ''bulk operation had errors: mapper_parsing_exception: failed to parse; version_conflict_engine_exception: conflict'')"
proof -
  let ?L = "sample_lib (answering (Inr (ok_response body_two_errors)))"
  let ?docs = "[Some 0, Some (1::nat)]"
  let ?items = "[[(''index'', bulk_item ''1'' 400 ''mapper_parsing_exception'' ''failed to parse'')],
                 [(''index'', bulk_item ''2'' 201 [] [])],
                 [(''index'', bulk_item ''3'' 409 ''version_conflict_engine_exception'' ''conflict'')]]"
  have ne: "?docs \<noteq> []" by simp
  have ok: "list_all (round_ok ?L ''books'' ?docs (mem two_docs)) [0..<length ?docs]"
    by code_simp
  have send: "Do ?L (client sample_client)
                (BulkRequest (bulk_body ?L ''books'' ?docs (mem two_docs) (length ?docs)) ''true'')
              = Inr (ok_response body_two_errors)"
    by (simp add: sample_lib_def answering_def)
  have status: "\<not> IsError ?L (ok_response body_two_errors)"
    by (simp add: sample_lib_def ok_response_def)
  have decode: "Decode_BulkResponse ?L (Body (ok_response body_two_errors))
     = Inr \<lparr>Took = 3, Errors = True, Items = ?items\<rparr>"
    by code_simp
  have flag: "Errors \<lparr>Took = 3, Errors = True, Items = ?items\<rparr>" by simp
  have visit: "\<forall>i m. mset (Range_item ?L i m) = mset m"
    by (simp add: sample_lib_def)
  have typed: "filter typed_error (map snd (concat ?items)) \<noteq> []" by code_simp
  have msgs: "Join (concat (visited_errors (Range_item ?L) ?items)) ''; ''
     = ''mapper_parsing_exception: failed to parse; version_conflict_engine_exception: conflict''"
    by code_simp
  from BulkCreate_item_errors [OF ne ok send status decode flag visit]
  have "fst (BulkCreate ?L sample_client ''books'' ?docs two_docs) =
           (if filter typed_error (map snd (concat ?items)) = [] then None
            else Some (Error (''bulk operation had errors: ''
                   @ Join (concat (visited_errors (Range_item ?L) ?items)) ''; '')))"
    by simp
  then show ?thesis using typed by (simp only: msgs if_False) simp
qed

text \<open>
  C1 as stated fails: the response to two documents has the errors flag set, its one item
  carries an error without a type, and \<^verbatim>\<open>BulkCreate\<close> returns no error.
\<close>

theorem BulkCreate_errors_flag_counterexample:
  "[Some 0, Some 1] \<noteq> [] \<and>
   Decode_BulkResponse (sample_lib (answering (Inr (ok_response body_untyped_error))))
       (Body (ok_response body_untyped_error))
     = Inr \<lparr>Took = 3, Errors = True, Items = [[(''index'', bulk_item ''1'' 400 [] ''rejected'')]]\<rparr> \<and>
   fst (BulkCreate (sample_lib (answering (Inr (ok_response body_untyped_error)))) sample_client
          ''books'' [Some 0, Some 1] two_docs) = None"
  by code_simp

subsection \<open>Search results\<close>

lemma SearchDocuments_loop_Cons:
  "SearchDocuments_loop (hit # hits) results h =
     (case Hit_Source hit of
        None \<Rightarrow> (Inl (Panic ''assignment to entry in nil map''), h)
      | Some a \<Rightarrow>
          SearchDocuments_loop hits (results @ [Some a])
            (map_set a ''_score'' (VFloat (Hit_Score hit)) (map_set a ''_id'' (VStr (Hit_ID hit)) h)))"
  by (simp add: map_assign_def split: option.splits)

lemma SearchDocuments_loop_results:
  "SearchDocuments_loop hits acc h = (Inr results, h') \<Longrightarrow>
     results = acc @ map Hit_Source hits \<and> None \<notin> set (map Hit_Source hits)"
proof (induction hits arbitrary: acc h)
  case Nil
  then show ?case by simp
next
  case (Cons hit hits)
  from Cons.prems obtain a where a: "Hit_Source hit = Some a"
    and run: "SearchDocuments_loop hits ((acc @ [Some a]))
            (map_set a ''_score'' (VFloat (Hit_Score hit)) (map_set a ''_id'' (VStr (Hit_ID hit)) h))
          = (Inr results, h')"
    by (auto simp: SearchDocuments_loop_Cons simp del: SearchDocuments_loop.simps(2)
             split: option.splits)
  from Cons.IH[OF run] a show ?case by simp
qed

lemma SearchDocuments_loop_frame:
  "SearchDocuments_loop hits acc h = (Inr results, h') \<Longrightarrow>
     Some a \<notin> set (map Hit_Source hits) \<Longrightarrow> cells h' a = cells h a"
proof (induction hits arbitrary: acc h)
  case Nil
  then show ?case by simp
next
  case (Cons hit hits)
  then show ?case
    by (auto simp: SearchDocuments_loop_Cons map_set_def simp del: SearchDocuments_loop.simps(2)
             split: option.splits)
qed

lemma SearchDocuments_loop_other_keys:
  "SearchDocuments_loop hits acc h = (Inr results, h') \<Longrightarrow> k \<noteq> ''_id'' \<Longrightarrow> k \<noteq> ''_score'' \<Longrightarrow>
     map_of (cells h' a) k = map_of (cells h a) k"
proof (induction hits arbitrary: acc h)
  case Nil
  then show ?case by simp
next
  case (Cons hit hits)
  from Cons.prems(1) obtain b where b: "Hit_Source hit = Some b"
    and run: "SearchDocuments_loop hits (acc @ [Some b])
            (map_set b ''_score'' (VFloat (Hit_Score hit)) (map_set b ''_id'' (VStr (Hit_ID hit)) h))
          = (Inr results, h')"
    by (auto simp: SearchDocuments_loop_Cons simp del: SearchDocuments_loop.simps(2)
             split: option.splits)
  from Cons.IH[OF run Cons.prems(2,3)] Cons.prems(2,3) show ?case
    by (simp add: map_set_def update_conv')
qed

lemma SearchDocuments_loop_keeps_keys:
  "SearchDocuments_loop hits acc h = (Inr results, h') \<Longrightarrow> map_of (cells h a) k \<noteq> None \<Longrightarrow>
     map_of (cells h' a) k \<noteq> None"
proof (induction hits arbitrary: acc h)
  case Nil
  then show ?case by simp
next
  case (Cons hit hits)
  from Cons.prems(1) obtain b where b: "Hit_Source hit = Some b"
    and run: "SearchDocuments_loop hits (acc @ [Some b])
            (map_set b ''_score'' (VFloat (Hit_Score hit)) (map_set b ''_id'' (VStr (Hit_ID hit)) h))
          = (Inr results, h')"
    by (auto simp: SearchDocuments_loop_Cons simp del: SearchDocuments_loop.simps(2)
             split: option.splits)
  have "map_of (cells (map_set b ''_score'' (VFloat (Hit_Score hit))
                 (map_set b ''_id'' (VStr (Hit_ID hit)) h)) a) k \<noteq> None"
    using Cons.prems(2) by (auto simp: map_set_def update_conv')
  from Cons.IH[OF run this] show ?case .
qed

lemma SearchDocuments_loop_sets_keys:
  "SearchDocuments_loop hits acc h = (Inr results, h') \<Longrightarrow> hit \<in> set hits \<Longrightarrow>
     has_key h' (Hit_Source hit) ''_id'' \<and> has_key h' (Hit_Source hit) ''_score''"
proof (induction hits arbitrary: acc h)
  case Nil
  then show ?case by simp
next
  case (Cons x hits)
  from Cons.prems(1) obtain b where b: "Hit_Source x = Some b"
    and run: "SearchDocuments_loop hits (acc @ [Some b])
            (map_set b ''_score'' (VFloat (Hit_Score x)) (map_set b ''_id'' (VStr (Hit_ID x)) h))
          = (Inr results, h')"
    by (auto simp: SearchDocuments_loop_Cons simp del: SearchDocuments_loop.simps(2)
             split: option.splits)
  let ?h2 = "map_set b ''_score'' (VFloat (Hit_Score x)) (map_set b ''_id'' (VStr (Hit_ID x)) h)"
  show ?case
  proof (cases "hit = x")
    case True
    have "map_of (cells ?h2 b) ''_id'' \<noteq> None" "map_of (cells ?h2 b) ''_score'' \<noteq> None"
      by (simp_all add: map_set_def update_conv')
    then have "map_of (cells h' b) ''_id'' \<noteq> None" "map_of (cells h' b) ''_score'' \<noteq> None"
      using SearchDocuments_loop_keeps_keys[OF run] by blast+
    then show ?thesis using True b by (simp add: has_key_def map_index_def entries_def)
  next
    case False
    then have "hit \<in> set hits" using Cons.prems(2) by simp
    from Cons.IH[OF run this] show ?thesis .
  qed
qed

lemma SearchDocuments_loop_source_keys:
  assumes "SearchDocuments_loop hits acc h = (Inr results, h')" "k \<noteq> ''_id''" "k \<noteq> ''_score''"
  shows "map_index h' r k = map_index h r k"
  using SearchDocuments_loop_other_keys[OF assms]
  by (cases r) (simp_all add: map_index_def entries_def)

lemma SearchDocuments_loop_annotated:
  "SearchDocuments_loop hits acc h = (Inr results, h') \<Longrightarrow>
     distinct (map Hit_Source hits) \<Longrightarrow> hit \<in> set hits \<Longrightarrow>
     map_of (entries h' (Hit_Source hit)) = annotated hit (map_of (entries h (Hit_Source hit)))"
proof (induction hits arbitrary: acc h)
  case Nil
  then show ?case by simp
next
  case (Cons x hits)
  from Cons.prems(1) obtain a where a: "Hit_Source x = Some a"
    and run: "SearchDocuments_loop hits (acc @ [Some a])
            (map_set a ''_score'' (VFloat (Hit_Score x)) (map_set a ''_id'' (VStr (Hit_ID x)) h))
          = (Inr results, h')"
    by (auto simp: SearchDocuments_loop_Cons simp del: SearchDocuments_loop.simps(2)
             split: option.splits)
  let ?h2 = "map_set a ''_score'' (VFloat (Hit_Score x)) (map_set a ''_id'' (VStr (Hit_ID x)) h)"
  have notin: "Some a \<notin> set (map Hit_Source hits)" using Cons.prems(2) a by simp
  show ?case
  proof (cases "hit = x")
    case True
    have "cells h' a = cells ?h2 a" by (rule SearchDocuments_loop_frame[OF run notin])
    then show ?thesis using True a
      by (simp add: entries_def annotated_def map_set_def update_conv')
  next
    case False
    then have mem: "hit \<in> set hits" using Cons.prems(3) by simp
    then have "Hit_Source hit \<noteq> Some a" using notin by force
    then have same: "entries ?h2 (Hit_Source hit) = entries h (Hit_Source hit)"
      by (cases "Hit_Source hit") (simp_all add: entries_def map_set_def)
    from Cons.IH[OF run _ mem] Cons.prems(2) same show ?thesis by simp
  qed
qed

text \<open>
  C8. Whenever \<^verbatim>\<open>SearchDocuments\<close> returns results, the query was encoded, the request
  answered and the response decoded, and the results are the source maps of the hits of the
  response, one for each hit and in the same order, none of them nil. After the call each
  of them has the keys \<open>_id\<close> and \<open>_score\<close> and, under every other key, what the
  source held when it was decoded. Where the decoder has given every hit a source map of
  its own, as \<^verbatim>\<open>encoding/json\<close> does, \<open>_id\<close> is the identifier of that very hit and
  \<open>_score\<close> its score: the result is the hit's source, annotated.
\<close>

theorem SearchDocuments_annotates_hits:
  assumes "SearchDocuments L c index query w = (Inr results, w')"
  shows "\<exists>body res response h1.
           Marshal L (mem w) (VMap query) = Inr body \<and>
           Do L (client c) (SearchRequest [index] body) = Inr res \<and>
           Decode_SearchResponse L (Body res) (mem w) = Inr (response, h1) \<and>
           results = map Hit_Source (Hits (Search_Hits response)) \<and>
           None \<notin> set results \<and>
           (\<forall>hit \<in> set (Hits (Search_Hits response)).
              has_key (mem w') (Hit_Source hit) ''_id'' \<and>
              has_key (mem w') (Hit_Source hit) ''_score'' \<and>
              (\<forall>k. k \<noteq> ''_id'' \<and> k \<noteq> ''_score'' \<longrightarrow>
                 map_index (mem w') (Hit_Source hit) k = map_index h1 (Hit_Source hit) k)) \<and>
           (distinct (map Hit_Source (Hits (Search_Hits response))) \<longrightarrow>
              (\<forall>hit \<in> set (Hits (Search_Hits response)).
                 map_of (entries (mem w') (Hit_Source hit))
                   = annotated hit (map_of (entries h1 (Hit_Source hit)))))"
proof -
  from assms obtain body where body: "Marshal L (mem w) (VMap query) = Inr body"
    by (auto simp: SearchDocuments_def split: sum.splits)
  from assms body obtain res where res: "Do L (client c) (SearchRequest [index] body) = Inr res"
    by (auto simp: SearchDocuments_def Let_def split: sum.splits)
  from assms body res have ok: "\<not> IsError L res"
    by (auto simp: SearchDocuments_def Let_def split: if_splits)
  from assms body res ok obtain response h1
    where dec: "Decode_SearchResponse L (Body res) (mem w) = Inr (response, h1)"
    by (auto simp: SearchDocuments_def Let_def parseResponse_def split: sum.splits)
  from assms body res ok dec obtain h2
    where loop: "SearchDocuments_loop (Hits (Search_Hits response)) [] h1 = (Inr results, h2)"
      and w': "mem w' = h2"
    by (auto simp: SearchDocuments_def Let_def parseResponse_def split: sum.splits prod.splits)
  from SearchDocuments_loop_results[OF loop]
  have r: "results = map Hit_Source (Hits (Search_Hits response))" "None \<notin> set results"
    by simp_all
  have keys: "has_key (mem w') (Hit_Source hit) ''_id'' \<and>
              has_key (mem w') (Hit_Source hit) ''_score'' \<and>
              (\<forall>k. k \<noteq> ''_id'' \<and> k \<noteq> ''_score'' \<longrightarrow>
                 map_index (mem w') (Hit_Source hit) k = map_index h1 (Hit_Source hit) k)"
    if "hit \<in> set (Hits (Search_Hits response))" for hit
    using SearchDocuments_loop_sets_keys[OF loop that] SearchDocuments_loop_source_keys[OF loop] w'
    by simp
  have own: "map_of (entries (mem w') (Hit_Source hit))
                   = annotated hit (map_of (entries h1 (Hit_Source hit)))"
    if "distinct (map Hit_Source (Hits (Search_Hits response)))"
       "hit \<in> set (Hits (Search_Hits response))" for hit
    using SearchDocuments_loop_annotated[OF loop that] w' by simp
  show ?thesis
    using body res dec r keys own by blast
qed

theorem SearchDocuments_annotates_hits_witness:
  "fst (SearchDocuments (sample_lib (answering (Inr (ok_response body_two_hits)))) sample_client
          ''books'' (Some 2) one_query) = Inr [Some 3, Some 4] \<and>
   map_of (entries (mem (snd (SearchDocuments (sample_lib (answering (Inr (ok_response body_two_hits))))
                               sample_client ''books'' (Some 2) one_query))) (Some 4))
     = [''title'' \<mapsto> VStr ''HOL'', ''_id'' \<mapsto> VStr ''b'', ''_score'' \<mapsto> VFloat 0x3FE0000000000000]"
proof -
  let ?L = "sample_lib (answering (Inr (ok_response body_two_hits)))"
  let ?run = "SearchDocuments ?L sample_client ''books'' (Some 2) one_query"
  let ?hitb = "\<lparr>Hit_Index = ''books'', Hit_ID = ''b'', Hit_Score = 0x3FE0000000000000,
                Hit_Source = Some 4\<rparr>"
  have results: "fst ?run = Inr [Some 3, Some 4]" by code_simp
  then have run: "?run = (Inr [Some 3, Some 4], snd ?run)" by (simp add: prod_eq_iff)
  from SearchDocuments_annotates_hits[OF run]
  obtain body res response h1 where
    send: "Do ?L (client sample_client) (SearchRequest [''books''] body) = Inr res" and
    dec: "Decode_SearchResponse ?L (Body res) (mem one_query) = Inr (response, h1)" and
    ann: "distinct (map Hit_Source (Hits (Search_Hits response))) \<longrightarrow>
            (\<forall>hit \<in> set (Hits (Search_Hits response)).
               map_of (entries (mem (snd ?run)) (Hit_Source hit))
                 = annotated hit (map_of (entries h1 (Hit_Source hit))))"
    by (elim exE conjE) (rule that)
  from send have res: "res = ok_response body_two_hits"
    by (simp add: sample_lib_def answering_def)
  from dec have hits: "Hits (Search_Hits response) =
        [\<lparr>Hit_Index = ''books'', Hit_ID = ''a'', Hit_Score = 0x3FF0000000000000,
          Hit_Source = Some 3\<rparr>, ?hitb]"
    and src: "entries h1 (Some 4) = [(''title'', VStr ''HOL'')]"
    unfolding res
    by (auto simp: sample_lib_def ok_response_def sample_decode_search_def new_map_def
          one_query_def store_of_def entries_def)
  have "map_of (entries (mem (snd ?run)) (Hit_Source ?hitb))
          = annotated ?hitb (map_of (entries h1 (Hit_Source ?hitb)))"
    using ann hits by simp
  then have "map_of (entries (mem (snd ?run)) (Some 4))
     = [''title'' \<mapsto> VStr ''HOL'', ''_id'' \<mapsto> VStr ''b'', ''_score'' \<mapsto> VFloat 0x3FE0000000000000]"
    using src by (simp add: annotated_def)
  then show ?thesis using results by simp
qed

subsection \<open>The identifiers of bulk documents\<close>

text \<open>
  C9 (amended). The documents are nil or maps of the store, and \<open>H i\<close> is the store after
  \<open>i\<close> rounds of the loop; \<open>H 0\<close> is the store of the call. Round \<open>i\<close> makes two maps: the
  map \<open>_index\<close> = index, to which it adds under \<open>_id\<close> the value the document has under
  \<open>_id\<close> when it has one, and the action map, which holds that map under \<open>index\<close>. It
  deletes \<open>_id\<close> from the document's map and leaves every other cell of the store as it
  was; after it the document has no \<open>_id\<close>. The encoder is then called on that store, with the action
  map and with the document.

  When no encoding fails, one request is sent. Its body is, round after round, the encoded
  action map, a line feed, the encoded document, a line feed. After the call no document
  of the list has the key \<open>_id\<close>, and the caller's maps are otherwise as before.

  When round \<open>k\<close> is the first in which an encoding fails, the call returns the error of
  that round and sends no request. The documents of the rounds up to \<open>k\<close> have lost
  \<open>_id\<close>; every other map of the caller, hence every document that only comes after
  \<open>k\<close>, is as it was before the call.

  In every case the call changes a map of the caller at most by deleting \<open>_id\<close>.
\<close>

theorem BulkCreate_moves_id:
  assumes "list_all (allocated (mem w)) documents"
  shows
  "(let H = rounds index documents (mem w); W = snd (BulkCreate L c index documents w)
    in H 0 = mem w \<and>
       (\<forall>i<length documents.
          nxt (H (Suc i)) = Suc (Suc (nxt (H i))) \<and>
          cells (H (Suc i)) (nxt (H i)) =
            (''_index'', VStr index) #
            (case map_index (H i) (documents ! i) ''_id'' of
               Some v \<Rightarrow> [(''_id'', v)] | None \<Rightarrow> []) \<and>
          cells (H (Suc i)) (Suc (nxt (H i))) = [(''index'', VMap (Some (nxt (H i))))] \<and>
          (\<forall>a<nxt (H i).
             cells (H (Suc i)) a =
               (if documents ! i = Some a then AList.delete ''_id'' (cells (H i) a)
                else cells (H i) a)) \<and>
          (\<forall>a>Suc (nxt (H i)). cells (H (Suc i)) a = cells (H i) a) \<and>
          \<not> has_key (H (Suc i)) (documents ! i) ''_id'') \<and>
       (documents \<noteq> [] \<and>
        list_all (round_ok L index documents (mem w)) [0..<length documents] \<longrightarrow>
          sent W = sent w @
                   [BulkRequest (concat (map (\<lambda>i. projr (action_line L index documents (mem w) i)
                                                   @ [CHR 0x0A]
                                                   @ projr (doc_line L index documents (mem w) i)
                                                   @ [CHR 0x0A])
                                             [0..<length documents])) ''true''] \<and>
          mem W = H (length documents) \<and>
          (\<forall>doc\<in>set documents. \<not> has_key (mem W) doc ''_id'') \<and>
          (\<forall>a<nxt (mem w).
             cells (mem W) a =
               (if Some a \<in> set documents then AList.delete ''_id'' (cells (mem w) a)
                else cells (mem w) a))) \<and>
       (k < length documents \<and>
        list_all (round_ok L index documents (mem w)) [0..<k] \<and>
        \<not> round_ok L index documents (mem w) k \<longrightarrow>
          fst (BulkCreate L c index documents w)
            = Some (round_error L index documents (mem w) k) \<and>
          sent W = sent w \<and>
          mem W = H (Suc k) \<and>
          (\<forall>a<nxt (mem w).
             cells (mem W) a =
               (if Some a \<in> set (take (Suc k) documents)
                then AList.delete ''_id'' (cells (mem w) a) else cells (mem w) a))) \<and>
       (\<forall>a<nxt (mem w).
          cells (mem W) a = cells (mem w) a \<or>
          cells (mem W) a = AList.delete ''_id'' (cells (mem w) a)))"
proof -
  let ?H = "rounds index documents (mem w)"
  let ?W = "snd (BulkCreate L c index documents w)"
  have start: "?H 0 = mem w" by (rule rounds_0)
  have step: "nxt (?H (Suc i)) = Suc (Suc (nxt (?H i))) \<and>
          cells (?H (Suc i)) (nxt (?H i)) =
            (''_index'', VStr index) #
            (case map_index (?H i) (documents ! i) ''_id'' of
               Some v \<Rightarrow> [(''_id'', v)] | None \<Rightarrow> []) \<and>
          cells (?H (Suc i)) (Suc (nxt (?H i))) = [(''index'', VMap (Some (nxt (?H i))))] \<and>
          (\<forall>a<nxt (?H i).
             cells (?H (Suc i)) a =
               (if documents ! i = Some a then AList.delete ''_id'' (cells (?H i) a)
                else cells (?H i) a)) \<and>
          (\<forall>a>Suc (nxt (?H i)). cells (?H (Suc i)) a = cells (?H i) a) \<and>
          \<not> has_key (?H (Suc i)) (documents ! i) ''_id''"
    if i: "i < length documents" for i
  proof -
    have al: "allocated (?H i) (documents ! i)"
      using rounds_allocated[OF assms i] i by simp
    show ?thesis
      using move_id_action[OF al, of index] move_id_old[OF al, of _ index]
        move_id_no_id[OF al, of index] move_id_beyond[OF al, of _ index]
      by (simp add: rounds_Suc[OF i] move_id_nxt)
  qed
  have complete: "sent ?W = sent w @
                   [BulkRequest (concat (map (\<lambda>i. projr (action_line L index documents (mem w) i)
                                                   @ [CHR 0x0A]
                                                   @ projr (doc_line L index documents (mem w) i)
                                                   @ [CHR 0x0A])
                                             [0..<length documents])) ''true''] \<and>
          mem ?W = ?H (length documents) \<and>
          (\<forall>doc\<in>set documents. \<not> has_key (mem ?W) doc ''_id'') \<and>
          (\<forall>a<nxt (mem w).
             cells (mem ?W) a =
               (if Some a \<in> set documents then AList.delete ''_id'' (cells (mem w) a)
                else cells (mem w) a))"
    if ne: "documents \<noteq> []"
      and ok: "list_all (round_ok L index documents (mem w)) [0..<length documents]"
  proof -
    have m: "mem ?W = ?H (length documents)" by (rule BulkCreate_complete(2)[OF ne ok])
    have old: "cells (mem ?W) a =
               (if Some a \<in> set documents then AList.delete ''_id'' (cells (mem w) a)
                else cells (mem w) a)" if "a < nxt (mem w)" for a
      using rounds_old[OF assms that le_refl, of index] m by simp
    have gone: "\<not> has_key (mem ?W) doc ''_id''" if "doc \<in> set documents" for doc
    proof (cases doc)
      case None
      then show ?thesis by (simp add: has_key_def map_index_def entries_def)
    next
      case (Some a)
      then have "a < nxt (mem w)" using assms that by (auto simp: list_all_iff allocated_def)
      from old[OF this] that Some show ?thesis
        by (simp add: has_key_def map_index_def entries_def delete_conv')
    qed
    have bytes: "round_bytes L index documents (mem w) =
                   (\<lambda>i. projr (action_line L index documents (mem w) i) @ [CHR 0x0A]
                        @ projr (doc_line L index documents (mem w) i) @ [CHR 0x0A])"
      by (rule ext) (simp add: round_bytes_def)
    show ?thesis
      using BulkCreate_complete(1)[OF ne ok, of c] m old gone
      by (simp add: bulk_body_def bytes)
  qed
  have stops: "fst (BulkCreate L c index documents w)
            = Some (round_error L index documents (mem w) k) \<and>
          sent ?W = sent w \<and>
          mem ?W = ?H (Suc k) \<and>
          (\<forall>a<nxt (mem w).
             cells (mem ?W) a =
               (if Some a \<in> set (take (Suc k) documents)
                then AList.delete ''_id'' (cells (mem w) a) else cells (mem w) a))"
    if k: "k < length documents"
      and before: "list_all (round_ok L index documents (mem w)) [0..<k]"
      and fails: "\<not> round_ok L index documents (mem w) k"
  proof -
    have "Suc k \<le> length documents" using k by simp
    from rounds_old[OF assms _ this, of _ index] BulkCreate_stops[OF k before fails, of c]
    show ?thesis by simp
  qed
  have frame: "\<forall>a<nxt (mem w).
          cells (mem ?W) a = cells (mem w) a \<or>
          cells (mem ?W) a = AList.delete ''_id'' (cells (mem w) a)"
    using BulkCreate_loop_frame[OF assms, of _ L index "[]"] by (simp add: BulkCreate_mem)
  show ?thesis
    unfolding Let_def using start step complete stops frame by blast
qed


theorem BulkCreate_moves_id_witness:
  "list_all (allocated (mem two_docs)) [Some 0, Some 1] \<and>
   list_all (round_ok (sample_lib (answering (Inr (ok_response body_no_errors)))) ''books''
               [Some 0, Some 1] (mem two_docs)) [0..<length [Some 0, Some (1::nat)]] \<and>
   has_key (mem two_docs) (Some 0) ''_id'' \<and>
   sent (snd (BulkCreate (sample_lib (answering (Inr (ok_response body_no_errors))))
                sample_client ''books'' [Some 0, Some 1] two_docs))
     = [BulkRequest two_docs_body ''true''] \<and>
   \<not> has_key (mem (snd (BulkCreate (sample_lib (answering (Inr (ok_response body_no_errors))))
                          sample_client ''books'' [Some 0, Some 1] two_docs))) (Some 0) ''_id'' \<and>
   list_all (allocated (mem chan_docs)) [Some 0, Some 1] \<and>
   \<not> round_ok (sample_lib (answering (Inr (ok_response body_no_errors)))) ''books''
         [Some 0, Some 1] (mem chan_docs) 0 \<and>
   sent (snd (BulkCreate (sample_lib (answering (Inr (ok_response body_no_errors))))
                sample_client ''books'' [Some 0, Some 1] chan_docs)) = [] \<and>
   cells (mem (snd (BulkCreate (sample_lib (answering (Inr (ok_response body_no_errors))))
                     sample_client ''books'' [Some 0, Some 1] chan_docs))) 1
     = cells (mem chan_docs) 1"
proof -
  let ?L = "sample_lib (answering (Inr (ok_response body_no_errors)))"
  let ?docs = "[Some 0, Some (1::nat)]"
  let ?W = "snd (BulkCreate ?L sample_client ''books'' ?docs two_docs)"
  let ?V = "snd (BulkCreate ?L sample_client ''books'' ?docs chan_docs)"
  have alloc: "list_all (allocated (mem two_docs)) ?docs" by code_simp
  have ok: "list_all (round_ok ?L ''books'' ?docs (mem two_docs)) [0..<length ?docs]"
    by code_simp
  have before: "has_key (mem two_docs) (Some 0) ''_id''" by code_simp
  have body: "concat (map (\<lambda>i. projr (action_line ?L ''books'' ?docs (mem two_docs) i)
                                   @ [CHR 0x0A]
                                   @ projr (doc_line ?L ''books'' ?docs (mem two_docs) i)
                                   @ [CHR 0x0A])
                           [0..<length ?docs]) = two_docs_body"
    by code_simp
  have unsent: "sent two_docs = []" by (simp add: two_docs_def)
  note t = BulkCreate_moves_id[OF alloc, unfolded Let_def,
              where L = ?L and index = "''books''" and c = sample_client]
  have ne: "?docs \<noteq> []" by simp
  from t ne ok have
    s: "sent ?W = sent two_docs @
          [BulkRequest (concat (map (\<lambda>i. projr (action_line ?L ''books'' ?docs (mem two_docs) i)
                                   @ [CHR 0x0A]
                                   @ projr (doc_line ?L ''books'' ?docs (mem two_docs) i)
                                   @ [CHR 0x0A])
                           [0..<length ?docs])) ''true'']"
    and g: "\<forall>doc\<in>set ?docs. \<not> has_key (mem ?W) doc ''_id''"
    by blast+
  have first: "sent ?W = [BulkRequest two_docs_body ''true'']"
    by (simp only: s body unsent append_Nil)
  have gone: "\<not> has_key (mem ?W) (Some 0) ''_id''" using g by simp
  have alloc2: "list_all (allocated (mem chan_docs)) ?docs" by code_simp
  have fails: "\<not> round_ok ?L ''books'' ?docs (mem chan_docs) 0" by code_simp
  have none: "sent chan_docs = []" by (simp add: chan_docs_def)
  have one: "(1::nat) < nxt (mem chan_docs)" "Some (1::nat) \<notin> set (take (Suc 0) ?docs)"
    by (simp_all add: chan_docs_def store_of_def)
  note u = BulkCreate_moves_id[OF alloc2, unfolded Let_def,
              where L = ?L and index = "''books''" and c = sample_client and k = 0]
  from u fails have
    s2: "sent ?V = sent chan_docs"
    and c2: "\<forall>a<nxt (mem chan_docs).
               cells (mem ?V) a =
                 (if Some a \<in> set (take (Suc 0) ?docs)
                  then AList.delete ''_id'' (cells (mem chan_docs) a)
                  else cells (mem chan_docs) a)"
    by simp_all
  have untouched: "cells (mem ?V) 1 = cells (mem chan_docs) 1"
    using c2 one by simp
  show ?thesis
    using alloc ok before first gone alloc2 fails s2 none untouched by simp
qed

text \<open>
  C9 as stated fails: the first of two documents holds a channel, its encoding fails, and
  the second document still has its \<open>_id\<close> when the call returns.
\<close>

theorem BulkCreate_moves_id_counterexample:
  "has_key (mem chan_docs) (Some 1) ''_id'' \<and>
   fst (BulkCreate (sample_lib (answering (Inr (ok_response body_no_errors))))
          sample_client ''books'' [Some 0, Some 1] chan_docs)
     = Some (Error ''failed to marshal document: json: unsupported type: chan int'') \<and>
   has_key (mem (snd (BulkCreate (sample_lib (answering (Inr (ok_response body_no_errors))))
                        sample_client ''books'' [Some 0, Some 1] chan_docs))) (Some 1) ''_id''"
  by code_simp

end
